theory Spec2Isabelle
  imports Main
begin

section \<open>Value model\<close>

text \<open>
  The script \<^verbatim>\<open>validate_workflow_config.py\<close> works on the values that \<^verbatim>\<open>json.load\<close>
  returns: \<^verbatim>\<open>None\<close>, booleans, integers, floats, strings, dicts with string keys and
  lists. Scalars and containers are kept apart because the expression evaluator only ever
  sees scalars. Python floats are IEEE doubles; their carrier is the type parameter
  \<open>'f\<close>, and the few operations the script applies to them are fields of the record of
  interpreter services below. Strings are lists of 8-bit characters. A dict is the list
  of its items in insertion order; Python dicts have unique keys, which is the predicate
  \<open>wf_json\<close>.
\<close>

datatype 'f scalar = PNone | PBool bool | PInt int | PFloat 'f | PStr string

datatype 'f json = Leaf "'f scalar" | PDict "(string \<times> 'f json) list" | PList "'f json list"

fun wf_json :: "'f json \<Rightarrow> bool"
  and wf_items :: "(string \<times> 'f json) list \<Rightarrow> bool"
  and wf_elems :: "'f json list \<Rightarrow> bool" where
  "wf_json (Leaf a) = True"
| "wf_json (PDict kvs) = (distinct (map fst kvs) \<and> wf_items kvs)"
| "wf_json (PList xs) = wf_elems xs"
| "wf_items [] = True"
| "wf_items (kv # kvs) = (wf_json (snd kv) \<and> wf_items kvs)"
| "wf_elems [] = True"
| "wf_elems (x # xs) = (wf_json x \<and> wf_elems xs)"

section \<open>Exceptions\<close>

text \<open>
  A raised exception is a value: its class and its message. \<open>is_ValueError\<close> is
  \<^verbatim>\<open>isinstance(e, ValueError)\<close>: \<^verbatim>\<open>JSONDecodeError\<close> and the Unicode errors are
  subclasses of \<^verbatim>\<open>ValueError\<close>. \<^verbatim>\<open>SystemExit\<close> is what \<^verbatim>\<open>sys.exit\<close> raises; it is
  not an \<^verbatim>\<open>Exception\<close>.
\<close>

datatype exc_class = SystemExit | TypeError | ValueError | JSONDecodeError | UnicodeError
  | SyntaxError | AttributeError | OtherException

type_synonym error = "exc_class \<times> string"

definition is_ValueError :: "error \<Rightarrow> bool" where
  "is_ValueError e = (fst e = ValueError \<or> fst e = JSONDecodeError \<or> fst e = UnicodeError)"

section \<open>Interpreter services\<close>

text \<open>
  The script calls Python built-ins and standard-library functions whose code is not part
  of the repository. They are the fields of a record that every function of the model
  takes as its first argument; the theorems hold for every such record.
  A syntax tree of the \<^verbatim>\<open>ast\<close> module is a node with its class name
  (\<^verbatim>\<open>type(node).__name__\<close>), the values of its fields that are not nodes (an identifier, a
  constant) and its child nodes in the order of \<^verbatim>\<open>ast.iter_child_nodes\<close>.
\<close>

datatype 'f pyast = Node string "'f scalar list" "'f pyast list"

record 'f pylib =
  int_of_str :: "string \<Rightarrow> int option"
  float_of_str :: "string \<Rightarrow> 'f option"
  str_of_float :: "'f \<Rightarrow> string"
  float_eq_int :: "'f \<Rightarrow> int \<Rightarrow> bool"
  json_loads :: "string \<Rightarrow> error + 'f json"
  literal_eval :: "string \<Rightarrow> error + 'f json"
  ast_parse :: "string \<Rightarrow> error + 'f pyast"
  py_eval :: "'f pyast \<Rightarrow> (string \<Rightarrow> 'f scalar option) \<Rightarrow> error + 'f scalar"

section \<open>Disabled-subtree pruning\<close>

text \<open>
  \<^verbatim>\<open>data.get('disabled') == True\<close>: Python's \<open>==\<close> makes \<^verbatim>\<open>1\<close> and \<^verbatim>\<open>1.0\<close> equal to
  \<^verbatim>\<open>True\<close>; no string, \<^verbatim>\<open>None\<close>, dict or list is.
\<close>

fun eq_True :: "'f pylib \<Rightarrow> 'f json \<Rightarrow> bool" where
  "eq_True L (Leaf (PBool b)) = b"
| "eq_True L (Leaf (PInt i)) = (i = 1)"
| "eq_True L (Leaf (PFloat x)) = float_eq_int L x 1"
| "eq_True L v = False"

definition dict_get :: "(string \<times> 'f json) list \<Rightarrow> string \<Rightarrow> 'f json" where
  "dict_get kvs k = (case map_of kvs k of None \<Rightarrow> Leaf PNone | Some v \<Rightarrow> v)"

definition is_disabled :: "'f pylib \<Rightarrow> (string \<times> 'f json) list \<Rightarrow> bool" where
  "is_disabled L kvs = eq_True L (dict_get kvs ''disabled'')"

text \<open>
  \<^verbatim>\<open>remove_disabled_elements\<close> (lines 13 to 26). \<^verbatim>\<open>None\<close> is both the JSON null and the
  sign that a subtree is removed: a comprehension keeps the children whose pruned value
  \<^verbatim>\<open>is not None\<close>. \<open>prune_items\<close> is the dict comprehension of line 18 and
  \<open>prune_elems\<close> the list comprehension of line 22.
\<close>

fun remove_disabled_elements :: "'f pylib \<Rightarrow> 'f json \<Rightarrow> 'f json"
  and prune_items :: "'f pylib \<Rightarrow> (string \<times> 'f json) list \<Rightarrow> (string \<times> 'f json) list"
  and prune_elems :: "'f pylib \<Rightarrow> 'f json list \<Rightarrow> 'f json list" where
  "remove_disabled_elements L (PDict kvs) =
     (if is_disabled L kvs then Leaf PNone
      else (let cleaned_dict = prune_items L kvs
            in if cleaned_dict = [] then Leaf PNone else PDict cleaned_dict))"
| "remove_disabled_elements L (PList xs) =
     (let cleaned_list = prune_elems L xs
      in if cleaned_list = [] then Leaf PNone else PList cleaned_list)"
| "remove_disabled_elements L (Leaf a) = Leaf a"
| "prune_items L [] = []"
| "prune_items L (kv # kvs) =
     (if remove_disabled_elements L (snd kv) \<noteq> Leaf PNone
      then (fst kv, remove_disabled_elements L (snd kv)) # prune_items L kvs
      else prune_items L kvs)"
| "prune_elems L [] = []"
| "prune_elems L (x # xs) =
     (if remove_disabled_elements L x \<noteq> Leaf PNone
      then remove_disabled_elements L x # prune_elems L xs
      else prune_elems L xs)"


section \<open>String operations\<close>

text \<open>
  The methods of \<^verbatim>\<open>str\<close> that the script uses. \<open>str_in sub s\<close> is \<^verbatim>\<open>sub in s\<close>,
  \<open>str_remove p s\<close> is \<^verbatim>\<open>s.replace(p, "")\<close> (occurrences found from left to right, without
  overlap), \<open>strip_char c s\<close> is \<^verbatim>\<open>s.strip(c)\<close> for a single character, \<open>split_on\<close> is
  \<^verbatim>\<open>s.split(d)\<close> and \<open>split_first\<close> is \<^verbatim>\<open>s.split(d, 1)\<close> unpacked into two names, which
  raises when the delimiter is missing. \<open>lower\<close> folds the ASCII letters only: the script
  compares its result with ASCII words, and no other character folds to one of their
  letters.
\<close>

definition dquote :: char where
  "dquote = CHR 0x22"

definition squote :: char where
  "squote = CHR 0x27"

definition marker :: string where
  "marker = ''___TEMP_MARKER___''"

definition startswith :: "string \<Rightarrow> string \<Rightarrow> bool" where
  "startswith s p = (take (length p) s = p)"

definition endswith :: "string \<Rightarrow> string \<Rightarrow> bool" where
  "endswith s p = (length p \<le> length s \<and> drop (length s - length p) s = p)"

fun str_in :: "string \<Rightarrow> string \<Rightarrow> bool" where
  "str_in sub [] = (sub = [])"
| "str_in sub (c # cs) = (startswith (c # cs) sub \<or> str_in sub cs)"

function str_remove :: "string \<Rightarrow> string \<Rightarrow> string" where
  "str_remove p [] = []"
| "str_remove p (c # cs) =
     (if p \<noteq> [] \<and> startswith (c # cs) p then str_remove p (drop (length p) (c # cs))
      else c # str_remove p cs)"
  by pat_completeness auto
termination
  by (relation "measure (\<lambda>(p, s). length s)") auto

definition lower_char :: "char \<Rightarrow> char" where
  "lower_char c =
     (let n = (of_char c :: nat) in if 65 \<le> n \<and> n \<le> 90 then char_of (n + 32) else c)"

definition lower :: "string \<Rightarrow> string" where
  "lower s = map lower_char s"

definition strip_char :: "char \<Rightarrow> string \<Rightarrow> string" where
  "strip_char c s = rev (dropWhile (\<lambda>x. x = c) (rev (dropWhile (\<lambda>x. x = c) s)))"

fun split_on :: "char \<Rightarrow> string \<Rightarrow> string list" where
  "split_on d [] = [[]]"
| "split_on d (c # cs) =
     (if c = d then [] # split_on d cs
      else (case split_on d cs of [] \<Rightarrow> [[c]] | w # ws \<Rightarrow> (c # w) # ws))"

definition split_first :: "char \<Rightarrow> string \<Rightarrow> (string \<times> string) option" where
  "split_first d s =
     (let rest = dropWhile (\<lambda>c. c \<noteq> d) s
      in if rest = [] then None else Some (takeWhile (\<lambda>c. c \<noteq> d) s, tl rest))"

text \<open>\<^verbatim>\<open>str(i)\<close> for an integer: its decimal digits, with a minus sign when negative.\<close>

fun digits :: "nat \<Rightarrow> string" where
  "digits n = (if n < 10 then [char_of (48 + n)] else digits (n div 10) @ [char_of (48 + n mod 10)])"

declare digits.simps [simp del]

definition str_of_int :: "int \<Rightarrow> string" where
  "str_of_int i = (if i < 0 then CHR ''-'' # digits (nat (- i)) else digits (nat i))"

text \<open>
  The pattern of line 274 matches a dollar sign, an opening brace, one or more characters
  other than a closing brace, and a closing brace. \<open>match_placeholder s\<close> matches it at
  the start of \<open>s\<close> and returns group 1 with the text after the match. \<open>re_sub f s\<close>
  is \<^verbatim>\<open>re.sub(pattern, f, s)\<close> for a callback that receives group 1 and may raise: the
  matches are found from left to right without overlap, and the callback runs on each in
  that order.
\<close>

definition match_placeholder :: "string \<Rightarrow> (string \<times> string) option" where
  "match_placeholder s =
     (case s of
        c1 # c2 # r \<Rightarrow>
          (if c1 = CHR ''$'' \<and> c2 = CHR ''{''
              \<and> takeWhile (\<lambda>c. c \<noteq> CHR ''}'') r \<noteq> [] \<and> dropWhile (\<lambda>c. c \<noteq> CHR ''}'') r \<noteq> []
           then Some (takeWhile (\<lambda>c. c \<noteq> CHR ''}'') r, tl (dropWhile (\<lambda>c. c \<noteq> CHR ''}'') r))
           else None)
      | _ \<Rightarrow> None)"

function re_sub :: "(string \<Rightarrow> error + string) \<Rightarrow> string \<Rightarrow> error + string" where
  "re_sub f [] = Inr []"
| "re_sub f (c # cs) =
     (case match_placeholder (c # cs) of
        Some (body, rest) \<Rightarrow>
          (case f body of
             Inl e \<Rightarrow> Inl e
           | Inr r \<Rightarrow> (case re_sub f rest of Inl e \<Rightarrow> Inl e | Inr t \<Rightarrow> Inr (r @ t)))
      | None \<Rightarrow> (case re_sub f cs of Inl e \<Rightarrow> Inl e | Inr t \<Rightarrow> Inr (c # t)))"
  by pat_completeness auto
termination
proof (relation "measure (\<lambda>(f, s). length s)")
  show "wf (measure (\<lambda>(f :: string \<Rightarrow> error + string, s :: string). length s))"
    by simp
next
  fix f :: "string \<Rightarrow> error + string" and c cs x2 body rest r
  assume "match_placeholder (c # cs) = Some x2" and "(body, rest) = x2"
  then have "match_placeholder (c # cs) = Some (body, rest)"
    by simp
  then obtain d r' where "cs = d # r'" and "rest = tl (dropWhile (\<lambda>c. c \<noteq> CHR ''}'') r')"
    by (auto simp: match_placeholder_def split: list.splits if_splits)
  then have "length rest < length (c # cs)"
    using length_dropWhile_le [of "\<lambda>c. c \<noteq> CHR ''}''" r'] by simp
  then show "((f, rest), (f, c # cs)) \<in> measure (\<lambda>(f, s). length s)"
    by simp
next
  fix f :: "string \<Rightarrow> error + string" and c cs
  show "((f, cs), (f, c # cs)) \<in> measure (\<lambda>(f, s). length s)"
    by simp
qed

section \<open>Override resolution\<close>

text \<open>
  The binding table \<^verbatim>\<open>overrides\<close> is a dict from names to values; only lookups,
  membership tests and insertions are made on it, so it is a map. \<open>coerce_override\<close> is
  the chain of lines 86 to 108 on one value token, \<open>parse_pairs\<close> the loop of line 84
  and \<open>parse_overrides\<close> lines 82 to 108.
\<close>

type_synonym 'f overrides = "string \<Rightarrow> 'f json option"

definition coerce_override :: "'f pylib \<Rightarrow> string \<Rightarrow> error + 'f json" where
  "coerce_override L v =
     (if startswith v ''{'' \<and> endswith v ''}'' then json_loads L v
      else if startswith v ''['' \<and> endswith v '']'' then literal_eval L v
      else if lower v = ''true'' then Inr (Leaf (PBool True))
      else if lower v = ''false'' then Inr (Leaf (PBool False))
      else if lower v = ''null'' \<or> lower v = ''none'' then Inr (Leaf PNone)
      else (case int_of_str L v of
              Some i \<Rightarrow> Inr (Leaf (PInt i))
            | None \<Rightarrow>
                (case float_of_str L v of
                   Some x \<Rightarrow> Inr (Leaf (PFloat x))
                 | None \<Rightarrow> Inr (Leaf (PStr (strip_char dquote v))))))"

fun parse_pairs :: "'f pylib \<Rightarrow> string list \<Rightarrow> 'f overrides \<Rightarrow> error + 'f overrides" where
  "parse_pairs L [] ov = Inr ov"
| "parse_pairs L (pair # pairs) ov =
     (case split_first CHR ''='' pair of
        None \<Rightarrow> Inl (ValueError, ''not enough values to unpack (expected 2, got 1)'')
      | Some (k, v) \<Rightarrow>
          (case coerce_override L v of
             Inl e \<Rightarrow> Inl e
           | Inr x \<Rightarrow> parse_pairs L pairs (ov(k \<mapsto> x))))"

definition parse_overrides :: "'f pylib \<Rightarrow> string \<Rightarrow> error + 'f overrides" where
  "parse_overrides L runtime_overrides =
     (if runtime_overrides \<noteq> [] then parse_pairs L (split_on CHR '';'' runtime_overrides) Map.empty
      else Inr Map.empty)"

text \<open>
  The merge of lines 111 to 114. \<open>merge_default\<close> is the inner loop over the items of
  one element of the defaults, \<open>merge_defaults_list\<close> the outer loop over a list, where an
  element that is no dict has no \<^verbatim>\<open>items\<close>. \<open>merge_defaults\<close> is the outer loop on
  whatever the document holds under \<^verbatim>\<open>defaults\<close>: iterating a dict or a string yields
  strings, which have no \<^verbatim>\<open>items\<close>, and the other scalars cannot be iterated.
\<close>

fun merge_default :: "(string \<times> 'f json) list \<Rightarrow> 'f overrides \<Rightarrow> 'f overrides" where
  "merge_default [] ov = ov"
| "merge_default (kv # kvs) ov =
     merge_default kvs (if ov (fst kv) = None then ov(fst kv \<mapsto> snd kv) else ov)"

fun merge_defaults_list :: "'f json list \<Rightarrow> 'f overrides \<Rightarrow> error + 'f overrides" where
  "merge_defaults_list [] ov = Inr ov"
| "merge_defaults_list (PDict kvs # ds) ov = merge_defaults_list ds (merge_default kvs ov)"
| "merge_defaults_list (d # ds) ov = Inl (AttributeError, ''object has no attribute items'')"

fun merge_defaults :: "'f json \<Rightarrow> 'f overrides \<Rightarrow> error + 'f overrides" where
  "merge_defaults (PList ds) ov = merge_defaults_list ds ov"
| "merge_defaults (PDict kvs) ov =
     (if kvs = [] then Inr ov else Inl (AttributeError, ''object has no attribute items''))"
| "merge_defaults (Leaf (PStr s)) ov =
     (if s = [] then Inr ov else Inl (AttributeError, ''object has no attribute items''))"
| "merge_defaults (Leaf a) ov = Inl (TypeError, ''object is not iterable'')"

definition overrides_get :: "'f overrides \<Rightarrow> string \<Rightarrow> 'f json" where
  "overrides_get ov k = (case ov k of None \<Rightarrow> Leaf PNone | Some v \<Rightarrow> v)"

section \<open>Expression evaluation\<close>

text \<open>
  \<open>ast_walk\<close> is \<^verbatim>\<open>ast.walk\<close>: breadth first, from a queue that starts with the root.
  \<open>first_unsupported\<close> is the loop of lines 130 to 132: the class name of the first node
  of the walk that is no instance of an allowed type.
\<close>

definition allowed_types :: "string list" where
  "allowed_types = [''Expression'', ''IfExp'', ''Compare'', ''BoolOp'', ''Name'', ''Load'',
     ''Constant'', ''Eq'', ''NotEq'', ''Lt'', ''LtE'', ''Gt'', ''GtE'']"

fun node_class :: "'f pyast \<Rightarrow> string" where
  "node_class (Node c a kids) = c"

function ast_walk :: "'f pyast list \<Rightarrow> 'f pyast list" where
  "ast_walk [] = []"
| "ast_walk (Node c a kids # todo) = Node c a kids # ast_walk (todo @ kids)"
  by pat_completeness auto
termination
proof (relation "measure (\<lambda>q. sum_list (map size q))")
  show "wf (measure (\<lambda>q :: 'f pyast list. sum_list (map size q)))"
    by simp
  have le: "sum_list (map size ks) \<le> size_list size ks" for ks :: "'f pyast list"
    by (induction ks) auto
  show "(todo @ kids, Node c a kids # todo) \<in> measure (\<lambda>q. sum_list (map size q))"
    for todo kids :: "'f pyast list" and c a
    using le [of kids] by simp
qed

definition first_unsupported :: "'f pyast \<Rightarrow> string option" where
  "first_unsupported tree =
     map_option node_class (find (\<lambda>n. node_class n \<notin> set allowed_types) (ast_walk [tree]))"

text \<open>
  \<open>handle_eval_error\<close> is what the two \<^verbatim>\<open>except\<close> clauses of lines 137 to 147 make of an
  exception raised in the \<^verbatim>\<open>try\<close> block: a \<^verbatim>\<open>TypeError\<close> whose message says that
  \<^verbatim>\<open>NoneType\<close> is not subscriptable becomes \<^verbatim>\<open>sys.exit\<close>; every other exception is
  raised again. \<open>locals_dict\<close> is the loop of lines 162 to 165, which leaves dicts and
  lists out of the evaluation context.
\<close>

definition not_subscriptable :: string where
  "not_subscriptable = squote # ''NoneType'' @ squote # '' object is not subscriptable''"

definition handle_eval_error :: "string \<Rightarrow> error \<Rightarrow> error" where
  "handle_eval_error expression e =
     (if fst e = TypeError \<and> str_in not_subscriptable (snd e)
      then (SystemExit, ''RVS conditional error'' @ CHR 0x0A # ''Error: '' @ expression)
      else e)"

definition safe_evaluate_condition ::
  "'f pylib \<Rightarrow> string \<Rightarrow> (string \<Rightarrow> 'f scalar option) \<Rightarrow> error + 'f scalar" where
  "safe_evaluate_condition L expression ctx =
     (case (case ast_parse L expression of
              Inl e \<Rightarrow> Inl e
            | Inr tree \<Rightarrow>
                (case first_unsupported tree of
                   Some name \<Rightarrow> Inl (ValueError, ''Unsupported operation: '' @ name)
                 | None \<Rightarrow> py_eval L tree ctx)) of
        Inl e \<Rightarrow> Inl (handle_eval_error expression e)
      | Inr r \<Rightarrow> Inr r)"

definition locals_dict :: "'f overrides \<Rightarrow> string \<Rightarrow> 'f scalar option" where
  "locals_dict ov k = (case ov k of Some (Leaf a) \<Rightarrow> Some a | _ \<Rightarrow> None)"

definition evaluate_conditional :: "'f pylib \<Rightarrow> 'f overrides \<Rightarrow> string \<Rightarrow> error + 'f scalar" where
  "evaluate_conditional L ov expression = safe_evaluate_condition L expression (locals_dict ov)"

section \<open>Template substitution\<close>

text \<open>
  \<open>py_str\<close> is \<^verbatim>\<open>str\<close> on a scalar. \<open>replace\<close> is the callback of lines 244 to 273 on
  group 1 of a match; group 0 is that text between a dollar sign with an opening brace and
  a closing brace. \<open>is_conditional\<close> is the test of line 250. The \<^verbatim>\<open>except ValueError\<close>
  of line 257 catches the exceptions that are instances of \<^verbatim>\<open>ValueError\<close>; every other
  one leaves the callback.
\<close>

fun py_str :: "'f pylib \<Rightarrow> 'f scalar \<Rightarrow> string" where
  "py_str L PNone = ''None''"
| "py_str L (PBool b) = (if b then ''True'' else ''False'')"
| "py_str L (PInt i) = str_of_int i"
| "py_str L (PFloat x) = str_of_float L x"
| "py_str L (PStr s) = s"

definition group0 :: "string \<Rightarrow> string" where
  "group0 full_expression = ''${'' @ full_expression @ ''}''"

definition is_conditional :: "string \<Rightarrow> bool" where
  "is_conditional full_expression = (str_in ''if'' full_expression \<and> str_in ''else'' full_expression)"

definition replace :: "'f pylib \<Rightarrow> 'f overrides \<Rightarrow> string \<Rightarrow> error + string" where
  "replace L ov full_expression =
     (if is_conditional full_expression then
        (case evaluate_conditional L ov full_expression of
           Inl e \<Rightarrow> if is_ValueError e then Inr (group0 full_expression) else Inl e
         | Inr PNone \<Rightarrow> Inr (group0 full_expression)
         | Inr result \<Rightarrow> Inr (py_str L result))
      else
        (case overrides_get ov full_expression of
           PDict kvs \<Rightarrow> Inr (marker @ full_expression)
         | PList xs \<Rightarrow> Inr (marker @ full_expression)
         | Leaf PNone \<Rightarrow> Inr (group0 full_expression)
         | Leaf (PBool b) \<Rightarrow> Inr (if b then ''true'' else ''false'')
         | Leaf (PInt i) \<Rightarrow> Inr (str_of_int i)
         | Leaf (PFloat x) \<Rightarrow> Inr (str_of_float L x)
         | Leaf (PStr s) \<Rightarrow> Inr (dquote # s @ [dquote])))"

text \<open>
  \<open>post_process\<close> is lines 277 to 295 on the text that \<^verbatim>\<open>re.sub\<close> returns:
  \<open>quote_wrapped\<close> is the test of line 277, and the slice \<^verbatim>\<open>result[1:-1]\<close> of line 280
  drops the first and the last character. \<open>replace_variable\<close> is the branch of that
  function for a string, the only kind of argument it is called with.
\<close>

definition quote_wrapped :: "string \<Rightarrow> bool" where
  "quote_wrapped result = (startswith result [dquote] \<and> endswith result [dquote])"

definition post_process :: "'f pylib \<Rightarrow> string \<Rightarrow> 'f json" where
  "post_process L result =
     (if quote_wrapped result then Leaf (PStr (butlast (tl result)))
      else if result = ''true'' \<or> result = ''false'' then Leaf (PBool (result = ''true''))
      else if result = ''null'' then Leaf (PStr result)
      else (case int_of_str L result of
              Some i \<Rightarrow> Leaf (PInt i)
            | None \<Rightarrow>
                (case float_of_str L result of
                   Some x \<Rightarrow> Leaf (PFloat x)
                 | None \<Rightarrow> Leaf (PStr result))))"

definition replace_variable :: "'f pylib \<Rightarrow> 'f overrides \<Rightarrow> string \<Rightarrow> error + 'f json" where
  "replace_variable L ov s =
     (case re_sub (replace L ov) s of
        Inl e \<Rightarrow> Inl e
      | Inr result \<Rightarrow> Inr (post_process L result))"

text \<open>
  \<open>resolve_marker\<close> is the direct assignment of lines 187 to 191 (and of lines 199 to
  203, 215 to 219 and 227 to 231, which repeat it). \<open>replace_string\<close> is what
  \<^verbatim>\<open>replace_variables\<close> does to a dict value or a list item that is a string, lines 186 to
  205 and 214 to 233. \<open>replace_variables\<close> returns the tree that the Python function has
  mutated in place; \<open>replace_dict_items\<close> and \<open>replace_list_items\<close> are its two loops
  and \<open>replace_value\<close> is the test \<^verbatim>\<open>isinstance(value, str)\<close> in their bodies.
  The key path is only ever printed when debugging and is left out.
\<close>

definition resolve_marker :: "'f overrides \<Rightarrow> string \<Rightarrow> 'f json" where
  "resolve_marker ov s = overrides_get ov (str_remove marker s)"

definition replace_string :: "'f pylib \<Rightarrow> 'f overrides \<Rightarrow> string \<Rightarrow> error + 'f json" where
  "replace_string L ov s =
     (if startswith s marker then Inr (resolve_marker ov s)
      else (case replace_variable L ov s of
              Inl e \<Rightarrow> Inl e
            | Inr (Leaf (PStr t)) \<Rightarrow>
                if startswith t marker then Inr (resolve_marker ov t) else Inr (Leaf (PStr t))
            | Inr r \<Rightarrow> Inr r))"

fun replace_variables :: "'f pylib \<Rightarrow> 'f overrides \<Rightarrow> 'f json \<Rightarrow> error + 'f json"
  and replace_value :: "'f pylib \<Rightarrow> 'f overrides \<Rightarrow> 'f json \<Rightarrow> error + 'f json"
  and replace_dict_items ::
    "'f pylib \<Rightarrow> 'f overrides \<Rightarrow> (string \<times> 'f json) list \<Rightarrow> error + (string \<times> 'f json) list"
  and replace_list_items :: "'f pylib \<Rightarrow> 'f overrides \<Rightarrow> 'f json list \<Rightarrow> error + 'f json list" where
  "replace_variables L ov (PDict kvs) =
     (case replace_dict_items L ov kvs of Inl e \<Rightarrow> Inl e | Inr kvs' \<Rightarrow> Inr (PDict kvs'))"
| "replace_variables L ov (PList xs) =
     (case replace_list_items L ov xs of Inl e \<Rightarrow> Inl e | Inr xs' \<Rightarrow> Inr (PList xs'))"
| "replace_variables L ov (Leaf a) = Inr (Leaf a)"
| "replace_value L ov (Leaf (PStr s)) = replace_string L ov s"
| "replace_value L ov v = replace_variables L ov v"
| "replace_dict_items L ov [] = Inr []"
| "replace_dict_items L ov (kv # kvs) =
     (case replace_value L ov (snd kv) of
        Inl e \<Rightarrow> Inl e
      | Inr v' \<Rightarrow>
          (case replace_dict_items L ov kvs of
             Inl e \<Rightarrow> Inl e
           | Inr kvs' \<Rightarrow> Inr ((fst kv, v') # kvs')))"
| "replace_list_items L ov [] = Inr []"
| "replace_list_items L ov (x # xs) =
     (case replace_value L ov x of
        Inl e \<Rightarrow> Inl e
      | Inr x' \<Rightarrow>
          (case replace_list_items L ov xs of
             Inl e \<Rightarrow> Inl e
           | Inr xs' \<Rightarrow> Inr (x' # xs')))"

section \<open>The pipeline\<close>

text \<open>
  \<open>truthy\<close> is Python's truth value of a JSON value and \<open>dict_pop\<close> is
  \<^verbatim>\<open>data.pop(k, None)\<close>; \<open>get_defaults\<close> is line 67 and \<open>without_defaults\<close> lines 76 to
  79. \<open>apply_runtime_overrides\<close> is lines 63 to 305: the document is
  the dict that \<^verbatim>\<open>json.load\<close> returned (any other value has no \<^verbatim>\<open>get\<close>).
  \<open>validate_and_output_json\<close> is lines 35 to 55 for an empty list of schema paths, on
  the document \<open>data\<close> that was read from \<open>file_path\<close>: the substitution, then the
  pruning; a \<^verbatim>\<open>JSONDecodeError\<close> becomes \<^verbatim>\<open>sys.exit\<close>. Reading the file, the schema
  check of an external validator, the final \<^verbatim>\<open>json.dumps\<close> and what the script prints are
  not modelled.
\<close>

fun truthy :: "'f pylib \<Rightarrow> 'f json \<Rightarrow> bool" where
  "truthy L (Leaf PNone) = False"
| "truthy L (Leaf (PBool b)) = b"
| "truthy L (Leaf (PInt i)) = (i \<noteq> 0)"
| "truthy L (Leaf (PFloat x)) = (\<not> float_eq_int L x 0)"
| "truthy L (Leaf (PStr s)) = (s \<noteq> [])"
| "truthy L (PDict kvs) = (kvs \<noteq> [])"
| "truthy L (PList xs) = (xs \<noteq> [])"

definition dict_pop :: "string \<Rightarrow> (string \<times> 'f json) list \<Rightarrow> (string \<times> 'f json) list" where
  "dict_pop k kvs = filter (\<lambda>kv. fst kv \<noteq> k) kvs"

definition get_defaults :: "(string \<times> 'f json) list \<Rightarrow> 'f json" where
  "get_defaults kvs = (case map_of kvs ''defaults'' of None \<Rightarrow> PList [] | Some d \<Rightarrow> d)"

definition without_defaults :: "'f pylib \<Rightarrow> (string \<times> 'f json) list \<Rightarrow> (string \<times> 'f json) list" where
  "without_defaults L kvs =
     (if truthy L (get_defaults kvs) then dict_pop ''defaults'' kvs else kvs)"

fun apply_runtime_overrides :: "'f pylib \<Rightarrow> 'f json \<Rightarrow> string \<Rightarrow> error + 'f json" where
  "apply_runtime_overrides L (PDict kvs) runtime_overrides =
     (if \<not> truthy L (get_defaults kvs) \<and> runtime_overrides = [] then Inr (PDict kvs)
      else
        (case parse_overrides L runtime_overrides of
           Inl e \<Rightarrow> Inl e
         | Inr ov \<Rightarrow>
             (case merge_defaults (get_defaults kvs) ov of
                Inl e \<Rightarrow> Inl e
              | Inr ov' \<Rightarrow> replace_variables L ov' (PDict (without_defaults L kvs)))))"
| "apply_runtime_overrides L other runtime_overrides =
     Inl (AttributeError, ''object has no attribute get'')"

definition validate_and_output_json ::
  "'f pylib \<Rightarrow> string \<Rightarrow> 'f json \<Rightarrow> string \<Rightarrow> error + 'f json" where
  "validate_and_output_json L file_path data runtime_overrides =
     (case apply_runtime_overrides L data runtime_overrides of
        Inl e \<Rightarrow>
          if fst e = JSONDecodeError
          then Inl (SystemExit,
                 ''Invalid JSON content in '' @ file_path @ CHR 0x0A # ''Error: '' @ snd e)
          else Inl e
      | Inr cleaned_data \<Rightarrow> Inr (remove_disabled_elements L cleaned_data))"

section \<open>An instance of the interpreter services\<close>

text \<open>
  To run the model on concrete documents the interpreter services need an instance.
  \<open>ref_lib\<close> covers the inputs of the examples of this theory and agrees with CPython
  there; it is not a model of CPython beyond them. A float is a decimal fraction
  \<open>(m, k)\<close>, standing for \<open>m / 10 ^ k\<close> with no trailing zero counted in \<open>k\<close>.
  \<open>ref_int\<close> reads an optional sign and decimal digits, \<open>ref_float\<close> reads digits, a
  point and digits; both reject every other text. \<open>ref_loads\<close> and \<open>ref_literal\<close> read
  the empty literals only. \<open>ref_parse\<close> knows the syntax trees of two expression texts,
  \<open>binop_tree\<close> and \<open>ifexp_tree\<close>, as \<^verbatim>\<open>ast.dump\<close> prints them, and \<open>ref_eval\<close> evaluates names, constants and the
  conditional expression; looking up a name that is not bound raises the
  \<^verbatim>\<open>TypeError\<close> that line 138 looks for.
\<close>

type_synonym dec = "int \<times> nat"

definition is_digit :: "char \<Rightarrow> bool" where
  "is_digit c = (48 \<le> (of_char c :: nat) \<and> (of_char c :: nat) \<le> 57)"

definition nat_of_digits :: "string \<Rightarrow> nat option" where
  "nat_of_digits ds =
     (if ds \<noteq> [] \<and> list_all is_digit ds
      then Some (foldl (\<lambda>a c. 10 * a + (of_char c - 48)) 0 ds)
      else None)"

definition ref_int :: "string \<Rightarrow> int option" where
  "ref_int s =
     (case s of
        [] \<Rightarrow> None
      | c # cs \<Rightarrow>
          if c = CHR ''-'' then map_option (\<lambda>n. - int n) (nat_of_digits cs)
          else if c = CHR ''+'' then map_option int (nat_of_digits cs)
          else map_option int (nat_of_digits s))"

definition ref_float :: "string \<Rightarrow> dec option" where
  "ref_float s =
     (let whole = takeWhile (\<lambda>c. c \<noteq> CHR ''.'') s;
          frac = rev (dropWhile (\<lambda>c. c = CHR ''0'') (rev (drop (Suc (length whole)) s)))
      in if length whole < length s \<and> whole \<noteq> [] \<and> list_all is_digit whole
            \<and> drop (Suc (length whole)) s \<noteq> [] \<and> list_all is_digit frac
         then map_option (\<lambda>m. (int m, length frac)) (nat_of_digits (whole @ frac))
         else None)"

definition ref_str_float :: "dec \<Rightarrow> string" where
  "ref_str_float x =
     (let ds = digits (nat \<bar>fst x\<bar>);
          padded = replicate (Suc (snd x) - length ds) CHR ''0'' @ ds;
          whole = take (length padded - snd x) padded;
          frac = drop (length padded - snd x) padded
      in (if fst x < 0 then ''-'' else []) @ whole @ ''.'' @ (if frac = [] then ''0'' else frac))"

definition ref_float_eq_int :: "dec \<Rightarrow> int \<Rightarrow> bool" where
  "ref_float_eq_int x n = (fst x = n * 10 ^ snd x)"

definition ref_loads :: "string \<Rightarrow> error + dec json" where
  "ref_loads s = (if s = ''{}'' then Inr (PDict []) else Inl (JSONDecodeError, ''Expecting value''))"

definition ref_literal :: "string \<Rightarrow> error + dec json" where
  "ref_literal s = (if s = ''[]'' then Inr (PList []) else Inl (SyntaxError, ''invalid syntax''))"

definition load_node :: "dec pyast" where
  "load_node = Node ''Load'' [] []"

definition binop_node :: "dec pyast" where
  "binop_node =
     Node ''BinOp'' []
       [Node ''Name'' [PStr ''a''] [load_node], Node ''Add'' [] [], Node ''Constant'' [PInt 1] []]"

definition binop_tree :: "dec pyast" where
  "binop_tree =
     Node ''Expression'' []
       [Node ''IfExp'' []
          [Node ''Name'' [PStr ''a''] [load_node], binop_node, Node ''Constant'' [PInt 0] []]]"

definition ifexp_tree :: "dec pyast" where
  "ifexp_tree =
     Node ''Expression'' []
       [Node ''IfExp'' []
          [Node ''Name'' [PStr ''a''] [load_node], Node ''Constant'' [PInt 1] [],
           Node ''Constant'' [PInt 0] []]]"

definition ref_parse :: "string \<Rightarrow> error + dec pyast" where
  "ref_parse s =
     (if s = ''a + 1 if a else 0'' then Inr binop_tree
      else if s = ''1 if a else 0'' then Inr ifexp_tree
      else Inl (SyntaxError, ''invalid syntax''))"

fun scalar_truthy :: "dec scalar \<Rightarrow> bool" where
  "scalar_truthy PNone = False"
| "scalar_truthy (PBool b) = b"
| "scalar_truthy (PInt i) = (i \<noteq> 0)"
| "scalar_truthy (PFloat x) = (fst x \<noteq> 0)"
| "scalar_truthy (PStr s) = (s \<noteq> [])"

fun ref_eval :: "dec pyast \<Rightarrow> (string \<Rightarrow> dec scalar option) \<Rightarrow> error + dec scalar" where
  "ref_eval (Node c [] [body]) ctx =
     (if c = ''Expression'' then ref_eval body ctx
      else Inl (OtherException, ''outside the reference evaluator''))"
| "ref_eval (Node c [v] []) ctx =
     (if c = ''Constant'' then Inr v
      else Inl (OtherException, ''outside the reference evaluator''))"
| "ref_eval (Node c [PStr x] [ld]) ctx =
     (if c = ''Name'' then
        (case ctx x of Some v \<Rightarrow> Inr v | None \<Rightarrow> Inl (TypeError, not_subscriptable))
      else Inl (OtherException, ''outside the reference evaluator''))"
| "ref_eval (Node c [] [test, body, orelse]) ctx =
     (if c = ''IfExp'' then
        (case ref_eval test ctx of
           Inl e \<Rightarrow> Inl e
         | Inr t \<Rightarrow> if scalar_truthy t then ref_eval body ctx else ref_eval orelse ctx)
      else Inl (OtherException, ''outside the reference evaluator''))"
| "ref_eval n ctx = Inl (OtherException, ''outside the reference evaluator'')"

definition ref_lib :: "dec pylib" where
  "ref_lib = \<lparr> int_of_str = ref_int, float_of_str = ref_float, str_of_float = ref_str_float,
     float_eq_int = ref_float_eq_int, json_loads = ref_loads, literal_eval = ref_literal,
     ast_parse = ref_parse, py_eval = ref_eval \<rparr>"

section \<open>Predicates on documents and strings\<close>

text \<open>
  The vocabulary of the statements below. \<open>no_placeholder s\<close>: the pattern of line 274
  matches nowhere in \<open>s\<close>. \<open>is_container\<close> is the test of line 263.
  \<open>lookup_path\<close> follows a path of dict keys and list indices into a document.
  \<open>all_strings P v\<close>: every string that is a dict value or a list item in \<open>v\<close>, at any
  depth, satisfies \<open>P\<close>. \<open>fixed_string L s\<close>: \<open>s\<close> does not start with the marker,
  holds no placeholder, is not wrapped in double quotes, is neither \<^verbatim>\<open>true\<close> nor
  \<^verbatim>\<open>false\<close>, and neither \<^verbatim>\<open>int\<close> nor \<^verbatim>\<open>float\<close> parses it. \<open>no_removal L v\<close>: \<open>v\<close>
  is not \<^verbatim>\<open>None\<close> and holds no disabled dict, no \<^verbatim>\<open>None\<close> and no empty dict or list.
\<close>

fun no_placeholder :: "string \<Rightarrow> bool" where
  "no_placeholder [] = True"
| "no_placeholder (c # cs) = (match_placeholder (c # cs) = None \<and> no_placeholder cs)"

fun is_container :: "'f json \<Rightarrow> bool" where
  "is_container (Leaf a) = False"
| "is_container v = True"

datatype step = Key string | Index nat

fun lookup_path :: "step list \<Rightarrow> 'f json \<Rightarrow> 'f json option" where
  "lookup_path [] v = Some v"
| "lookup_path (Key k # p) (PDict kvs) =
     (case map_of kvs k of None \<Rightarrow> None | Some c \<Rightarrow> lookup_path p c)"
| "lookup_path (Index i # p) (PList xs) = (if i < length xs then lookup_path p (xs ! i) else None)"
| "lookup_path p v = None"

fun all_strings :: "(string \<Rightarrow> bool) \<Rightarrow> 'f json \<Rightarrow> bool" where
  "all_strings P (PDict kvs) = list_all (\<lambda>kv. all_strings P (snd kv)) kvs"
| "all_strings P (PList xs) = list_all (all_strings P) xs"
| "all_strings P (Leaf (PStr s)) = P s"
| "all_strings P (Leaf a) = True"

definition fixed_string :: "'f pylib \<Rightarrow> string \<Rightarrow> bool" where
  "fixed_string L s =
     (\<not> startswith s marker \<and> no_placeholder s \<and> \<not> quote_wrapped s
      \<and> s \<noteq> ''true'' \<and> s \<noteq> ''false''
      \<and> int_of_str L s = None \<and> float_of_str L s = None)"

fun no_removal :: "'f pylib \<Rightarrow> 'f json \<Rightarrow> bool" where
  "no_removal L (PDict kvs) =
     (\<not> is_disabled L kvs \<and> kvs \<noteq> [] \<and> list_all (\<lambda>kv. no_removal L (snd kv)) kvs)"
| "no_removal L (PList xs) = (xs \<noteq> [] \<and> list_all (no_removal L) xs)"
| "no_removal L (Leaf a) = (a \<noteq> PNone)"

section \<open>The binding table, in the words of the specification\<close>

text \<open>
  The specification describes the resolved binding table by two lookups.
  \<open>spec_explicit\<close> is the explicit runtime override of a key: the coerced value of a
  pair of the override string with that key, the last such pair when the string repeats
  the key. \<open>spec_first_default\<close> is the value that the first element of the defaults
  list that defines the key gives to it.
\<close>

fun is_dict :: "'f json \<Rightarrow> bool" where
  "is_dict (PDict kvs) = True"
| "is_dict v = False"

fun spec_first_default :: "'f json list \<Rightarrow> string \<Rightarrow> 'f json option" where
  "spec_first_default [] k = None"
| "spec_first_default (PDict kvs # ds) k =
     (case map_of kvs k of Some v \<Rightarrow> Some v | None \<Rightarrow> spec_first_default ds k)"
| "spec_first_default (d # ds) k = spec_first_default ds k"

fun spec_explicit_pairs :: "'f pylib \<Rightarrow> string list \<Rightarrow> string \<Rightarrow> 'f json option" where
  "spec_explicit_pairs L [] k = None"
| "spec_explicit_pairs L (pair # pairs) k =
     (case spec_explicit_pairs L pairs k of
        Some v \<Rightarrow> Some v
      | None \<Rightarrow>
          (case split_first CHR ''='' pair of
             None \<Rightarrow> None
           | Some (k', v) \<Rightarrow>
               (case coerce_override L v of
                  Inl e \<Rightarrow> None
                | Inr x \<Rightarrow> if k' = k then Some x else None)))"

definition spec_explicit :: "'f pylib \<Rightarrow> string \<Rightarrow> string \<Rightarrow> 'f json option" where
  "spec_explicit L runtime_overrides k =
     (if runtime_overrides = [] then None
      else spec_explicit_pairs L (split_on CHR '';'' runtime_overrides) k)"

section \<open>Properties of the pruning pass\<close>

lemma eq_True_prune:
  "eq_True L (remove_disabled_elements L v) \<Longrightarrow> remove_disabled_elements L v = v"
  by (cases v) (auto simp: Let_def split: if_splits)

lemma prune_items_set:
  "(k, w) \<in> set (prune_items L kvs) \<Longrightarrow>
     w \<noteq> Leaf PNone \<and> (\<exists>v. (k, v) \<in> set kvs \<and> w = remove_disabled_elements L v)"
  by (induction kvs) (auto split: if_splits)

lemma is_disabled_prune_items:
  assumes "distinct (map fst kvs)" and "is_disabled L (prune_items L kvs)"
  shows "is_disabled L kvs"
proof -
  obtain w where w: "map_of (prune_items L kvs) ''disabled'' = Some w" "eq_True L w"
    using assms(2) by (auto simp: is_disabled_def dict_get_def split: option.splits)
  then have "(''disabled'', w) \<in> set (prune_items L kvs)"
    by (simp add: map_of_SomeD)
  then obtain v where v: "(''disabled'', v) \<in> set kvs" "w = remove_disabled_elements L v"
    using prune_items_set by blast
  with w have "w = v"
    using eq_True_prune by metis
  with v assms(1) have "map_of kvs ''disabled'' = Some w"
    by simp
  with w show ?thesis
    by (simp add: is_disabled_def dict_get_def)
qed

lemma prune_twice:
  "wf_json v \<longrightarrow>
     remove_disabled_elements L (remove_disabled_elements L v) = remove_disabled_elements L v"
  "wf_items kvs \<longrightarrow> prune_items L (prune_items L kvs) = prune_items L kvs"
  "wf_elems xs \<longrightarrow> prune_elems L (prune_elems L xs) = prune_elems L xs"
proof (induction L v and L kvs and L xs
    rule: remove_disabled_elements_prune_items_prune_elems.induct)
  case (1 L kvs)
  show ?case
  proof
    assume wf: "wf_json (PDict kvs)"
    show "remove_disabled_elements L (remove_disabled_elements L (PDict kvs))
        = remove_disabled_elements L (PDict kvs)"
    proof (cases "is_disabled L kvs")
      case True
      then show ?thesis by simp
    next
      case False
      with 1 wf have again: "prune_items L (prune_items L kvs) = prune_items L kvs"
        by simp
      from wf False have "\<not> is_disabled L (prune_items L kvs)"
        using is_disabled_prune_items by auto
      with False again show ?thesis
        by (simp add: Let_def)
    qed
  qed
next
  case (2 L xs)
  then show ?case by (simp add: Let_def)
next
  case (5 L kv kvs)
  then show ?case
    by (cases "remove_disabled_elements L (snd kv) = Leaf PNone") simp_all
next
  case (7 L x xs)
  then show ?case
    by (cases "remove_disabled_elements L x = Leaf PNone") simp_all
qed simp_all

text \<open>
  Claim C6. The pruning pass is idempotent: on every value whose dicts have unique keys
  (every value of Python), pruning the pruned value returns it unchanged, where the
  pruned value is the pruned tree or \<^verbatim>\<open>None\<close> when everything is removed.
\<close>

theorem prune_idempotent:
  "wf_json v \<Longrightarrow>
     remove_disabled_elements L (remove_disabled_elements L v) = remove_disabled_elements L v"
  using prune_twice(1) by blast

theorem prune_idempotent_witness:
  "wf_json (PDict [(''a'', PDict [(''disabled'', Leaf (PBool True))]),
                   (''b'', PList [Leaf (PInt 1), PDict []])] :: dec json)
   \<and> remove_disabled_elements ref_lib (remove_disabled_elements ref_lib
        (PDict [(''a'', PDict [(''disabled'', Leaf (PBool True))]),
                (''b'', PList [Leaf (PInt 1), PDict []])]))
     = PDict [(''b'', PList [Leaf (PInt 1)])]"
proof -
  have wf: "wf_json (PDict [(''a'', PDict [(''disabled'', Leaf (PBool True))]),
                            (''b'', PList [Leaf (PInt 1), PDict []])] :: dec json)"
    by simp
  have once: "remove_disabled_elements ref_lib
        (PDict [(''a'', PDict [(''disabled'', Leaf (PBool True))]),
                (''b'', PList [Leaf (PInt 1), PDict []])])
     = PDict [(''b'', PList [Leaf (PInt 1)])]"
    by (simp add: is_disabled_def dict_get_def)
  show ?thesis
    using wf once prune_idempotent [OF wf, of ref_lib] by simp
qed

text \<open>
  Claim C4 says that the pruning pass never removes a scalar: only disabled objects and
  the containers they leave empty are removed. The code removes a \<^verbatim>\<open>None\<close> that is a
  member of a dict or an item of a list, because \<^verbatim>\<open>None\<close> is also what the function
  returns for a removed subtree and the comprehensions of lines 18 and 22 drop every
  child whose pruned value is \<^verbatim>\<open>None\<close>. The comments of lines 19, 23 and 42 speak of
  disabled elements only. The object below holds no disabled object and loses its null
  member \<open>a\<close>, in the pruning pass and in a whole run.
\<close>

theorem prune_removes_null_member:
  "remove_disabled_elements ref_lib (PDict [(''a'', Leaf PNone), (''b'', Leaf (PInt 1))])
     = PDict [(''b'', Leaf (PInt 1))]
   \<and> validate_and_output_json ref_lib ''config.json''
        (PDict [(''a'', Leaf PNone), (''b'', Leaf (PInt 1))]) []
     = Inr (PDict [(''b'', Leaf (PInt 1))])"
  by code_simp

section \<open>Properties of the override resolution\<close>

lemmas string_defs =
  startswith_def endswith_def lower_def lower_char_def strip_char_def split_first_def
  dquote_def squote_def marker_def

lemmas ref_defs =
  ref_lib_def ref_int_def ref_float_def nat_of_digits_def is_digit_def

lemma merge_default_lookup:
  "merge_default kvs ov k = (case ov k of Some v \<Rightarrow> Some v | None \<Rightarrow> map_of kvs k)"
  by (induction kvs arbitrary: ov) (auto split: option.splits)

lemma merge_defaults_list_lookup:
  "list_all is_dict ds \<Longrightarrow>
     merge_defaults_list ds ov
       = Inr (\<lambda>k. case ov k of Some v \<Rightarrow> Some v | None \<Rightarrow> spec_first_default ds k)"
proof (induction ds ov rule: merge_defaults_list.induct)
  case (1 ov)
  then show ?case by (auto simp: fun_eq_iff split: option.splits)
next
  case (2 kvs ds ov)
  have eq: "merge_default kvs ov = (\<lambda>k. case ov k of Some v \<Rightarrow> Some v | None \<Rightarrow> map_of kvs k)"
    by (rule ext) (rule merge_default_lookup)
  from 2 have "merge_defaults_list ds (merge_default kvs ov)
      = Inr (\<lambda>k. case merge_default kvs ov k of
                    Some v \<Rightarrow> Some v
                  | None \<Rightarrow> spec_first_default ds k)"
    by simp
  also have "(\<lambda>k. case merge_default kvs ov k of
                    Some v \<Rightarrow> Some v
                  | None \<Rightarrow> spec_first_default ds k)
      = (\<lambda>k. case ov k of Some v \<Rightarrow> Some v | None \<Rightarrow> spec_first_default (PDict kvs # ds) k)"
    by (auto simp: fun_eq_iff eq split: option.splits)
  finally show ?case
    by simp
qed simp_all

lemma parse_pairs_lookup:
  "parse_pairs L pairs ov0 = Inr ov \<Longrightarrow>
     ov k = (case spec_explicit_pairs L pairs k of Some v \<Rightarrow> Some v | None \<Rightarrow> ov0 k)"
proof (induction pairs arbitrary: ov0)
  case Nil
  then show ?case by simp
next
  case (Cons pair pairs)
  then show ?case
    by (auto split: option.splits sum.splits)
qed

lemma parse_overrides_lookup:
  "parse_overrides L ro = Inr ov \<Longrightarrow> ov k = spec_explicit L ro k"
  using parse_pairs_lookup [of L "split_on CHR '';'' ro" Map.empty ov k]
  by (auto simp: parse_overrides_def spec_explicit_def split: if_splits option.splits)

text \<open>
  Claim C1. For every defaults list (a list of objects) and every override string that
  parses, the merge of lines 111 to 114 succeeds and the resolved binding table maps a key
  to its explicit runtime override whenever the string has one, wherever the key stands
  in the defaults list, and otherwise to the value of the first element of the defaults
  list that defines the key; later defaults for the key are ignored.
\<close>

theorem overrides_take_precedence:
  assumes "parse_overrides L runtime_overrides = Inr ov" and "list_all is_dict ds"
  shows "merge_defaults (PList ds) ov
    = Inr (\<lambda>k. case spec_explicit L runtime_overrides k of
                  Some v \<Rightarrow> Some v
                | None \<Rightarrow> spec_first_default ds k)"
  using assms by (simp add: merge_defaults_list_lookup parse_overrides_lookup)

theorem overrides_take_precedence_witness:
  "parse_overrides ref_lib ''env=dev'' = Inr [''env'' \<mapsto> Leaf (PStr ''dev'')]
   \<and> list_all is_dict
        [PDict [(''env'', Leaf (PStr ''prod'')), (''region'', Leaf (PStr ''us''))],
         PDict [(''env'', Leaf (PStr ''staging'')), (''region'', Leaf (PStr ''eu''))]]
   \<and> (\<exists>table.
        merge_defaults
          (PList [PDict [(''env'', Leaf (PStr ''prod'')), (''region'', Leaf (PStr ''us''))],
                  PDict [(''env'', Leaf (PStr ''staging'')), (''region'', Leaf (PStr ''eu''))]])
          [''env'' \<mapsto> Leaf (PStr ''dev'')] = Inr table
        \<and> table ''env'' = Some (Leaf (PStr ''dev''))
        \<and> table ''region'' = Some (Leaf (PStr ''us''))
        \<and> table ''zone'' = None)"
proof -
  have parsed: "parse_overrides ref_lib ''env=dev'' = Inr [''env'' \<mapsto> Leaf (PStr ''dev'')]"
    by (simp add: parse_overrides_def coerce_override_def string_defs ref_defs)
  have dicts: "list_all is_dict
        [PDict [(''env'', Leaf (PStr ''prod'')), (''region'', Leaf (PStr ''us''))],
         PDict [(''env'', Leaf (PStr ''staging'')), (''region'', Leaf (PStr ''eu''))]]"
    by simp
  have explicit: "spec_explicit ref_lib ''env=dev'' ''env'' = Some (Leaf (PStr ''dev''))"
    "spec_explicit ref_lib ''env=dev'' ''region'' = None"
    "spec_explicit ref_lib ''env=dev'' ''zone'' = None"
    by (simp_all add: spec_explicit_def coerce_override_def string_defs ref_defs)
  show ?thesis
    using parsed dicts explicit overrides_take_precedence [OF parsed dicts]
    by simp
qed

section \<open>Properties of the string operations\<close>

lemma re_sub_no_placeholder: "no_placeholder s \<Longrightarrow> re_sub f s = Inr s"
  by (induction s) auto

lemma match_group0:
  assumes "v \<noteq> []" and "CHR ''}'' \<notin> set v"
  shows "match_placeholder (group0 v @ post) = Some (v, post)"
proof -
  have tw: "takeWhile (\<lambda>c. c \<noteq> CHR ''}'') (v @ CHR ''}'' # post) = v"
    using assms(2) by (induction v) auto
  have dw: "dropWhile (\<lambda>c. c \<noteq> CHR ''}'') (v @ CHR ''}'' # post) = CHR ''}'' # post"
    using assms(2) by (induction v) auto
  show ?thesis
    using assms(1) tw dw by (simp add: match_placeholder_def group0_def)
qed

lemma match_after_prefix:
  assumes "\<not> str_in ''${'' (c # pre)"
  shows "match_placeholder (c # pre @ CHR ''$'' # rest) = None"
proof (cases pre)
  case Nil
  then show ?thesis by (simp add: match_placeholder_def)
next
  case (Cons d pre')
  with assms have "\<not> (c = CHR ''$'' \<and> d = CHR ''{'')"
    by (auto simp: startswith_def)
  with Cons show ?thesis by (auto simp: match_placeholder_def)
qed

lemma re_sub_at_placeholder:
  assumes "v \<noteq> []" and "CHR ''}'' \<notin> set v"
  shows "re_sub f (group0 v @ post)
    = (case f v of
         Inl e \<Rightarrow> Inl e
       | Inr r \<Rightarrow> (case re_sub f post of Inl e \<Rightarrow> Inl e | Inr t \<Rightarrow> Inr (r @ t)))"
proof -
  have m: "match_placeholder (CHR ''$'' # CHR ''{'' # v @ CHR ''}'' # post) = Some (v, post)"
    using match_group0 [OF assms, of post] by (simp add: group0_def)
  have "re_sub f (CHR ''$'' # CHR ''{'' # v @ CHR ''}'' # post)
    = (case f v of
         Inl e \<Rightarrow> Inl e
       | Inr r \<Rightarrow> (case re_sub f post of Inl e \<Rightarrow> Inl e | Inr t \<Rightarrow> Inr (r @ t)))"
    by (subst re_sub.simps) (simp only: m option.case prod.case)
  then show ?thesis
    by (simp add: group0_def)
qed

lemma re_sub_prefix:
  assumes "\<not> str_in ''${'' pre" and "v \<noteq> []" and "CHR ''}'' \<notin> set v"
  shows "re_sub f (pre @ group0 v @ post)
    = (case f v of
         Inl e \<Rightarrow> Inl e
       | Inr r \<Rightarrow> (case re_sub f post of Inl e \<Rightarrow> Inl e | Inr t \<Rightarrow> Inr (pre @ r @ t)))"
  using assms(1)
proof (induction pre)
  case Nil
  show ?case
    using re_sub_at_placeholder [OF assms(2,3), of f post] by (simp split: sum.splits)
next
  case (Cons c pre)
  have g: "group0 v @ post = CHR ''$'' # (CHR ''{'' # v @ CHR ''}'' # post)"
    by (simp add: group0_def)
  from Cons.prems have none: "match_placeholder (c # pre @ group0 v @ post) = None"
    unfolding g by (rule match_after_prefix)
  from Cons.prems have "\<not> str_in ''${'' pre" by simp
  then have ih: "re_sub f (pre @ group0 v @ post)
    = (case f v of
         Inl e \<Rightarrow> Inl e
       | Inr r \<Rightarrow> (case re_sub f post of Inl e \<Rightarrow> Inl e | Inr t \<Rightarrow> Inr (pre @ r @ t)))"
    by (rule Cons.IH)
  have "re_sub f ((c # pre) @ group0 v @ post)
      = (case re_sub f (pre @ group0 v @ post) of Inl e \<Rightarrow> Inl e | Inr t \<Rightarrow> Inr (c # t))"
    using none by simp
  then show ?case
    unfolding ih by (simp split: sum.splits)
qed

lemma str_remove_absent: "\<not> str_in p v \<Longrightarrow> str_remove p v = v"
  by (induction v) auto

lemma str_remove_prefix: "p \<noteq> [] \<Longrightarrow> str_remove p (p @ v) = str_remove p v"
  by (cases p) (auto simp: startswith_def)

lemma marker_nonempty: "marker \<noteq> []"
  by (simp add: marker_def)

lemma str_remove_marker: "\<not> str_in marker v \<Longrightarrow> str_remove marker (marker @ v) = v"
  using str_remove_prefix [OF marker_nonempty, of v] str_remove_absent [of marker v] by simp

lemma re_sub_head:
  assumes "re_sub f (c # cs) = Inr r" and "c \<noteq> CHR ''$''"
  shows "\<exists>t. r = c # t"
proof -
  have "match_placeholder (c # cs) = None"
    using assms(2) by (simp add: match_placeholder_def split: list.splits)
  with assms(1) show ?thesis
    by (auto split: sum.splits)
qed

lemma marker_head: "startswith s marker \<Longrightarrow> \<exists>t. s = CHR ''_'' # t"
  by (cases s) (auto simp: startswith_def marker_def)

lemma group0_not_marker: "\<not> startswith (group0 v @ post) marker"
  by (simp add: startswith_def group0_def marker_def)

lemma marker_text_not_special:
  "\<not> quote_wrapped (marker @ v)" "marker @ v \<noteq> ''true''" "marker @ v \<noteq> ''false''"
  "marker @ v \<noteq> ''null''" "startswith (marker @ v) marker"
  by (simp_all add: quote_wrapped_def startswith_def marker_def dquote_def)

lemma startswith_append_other:
  assumes "startswith (pre @ c # rest) m" and "c \<notin> set m"
  shows "startswith pre m"
proof (cases "length m \<le> length pre")
  case True
  with assms(1) show ?thesis by (simp add: startswith_def)
next
  case False
  then have "(pre @ c # rest) ! length pre = m ! length pre"
    using assms(1) by (metis startswith_def nth_take not_le)
  with False assms(2) show ?thesis
    by (metis nth_append_length nth_mem not_le)
qed

lemma str_in_append: "str_in sub (pre @ sub @ post)"
proof (induction pre)
  case Nil
  have sw: "startswith (sub @ post) sub"
    by (simp add: startswith_def)
  show ?case
  proof (cases "sub @ post")
    case Nil
    then show ?thesis by simp
  next
    case (Cons a list)
    with sw show ?thesis by simp
  qed
next
  case (Cons c pre)
  then show ?case by simp
qed


section \<open>Properties of the substitution pass\<close>

lemma replace_container:
  assumes "\<not> is_conditional v" and "is_container (overrides_get ov v)"
  shows "replace L ov v = Inr (marker @ v)"
  using assms by (cases "overrides_get ov v") (simp_all add: replace_def)

lemma replace_string_of_marker:
  assumes "\<not> startswith s marker" and "replace_variable L ov s = Inr (Leaf (PStr t))"
    and "startswith t marker"
  shows "replace_string L ov s = Inr (resolve_marker ov t)"
  using assms by (simp add: replace_string_def)

lemma replace_string_plain:
  assumes "\<not> startswith s marker" and "replace_variable L ov s = Inr (Leaf (PStr t))"
    and "\<not> startswith t marker"
  shows "replace_string L ov s = Inr (Leaf (PStr t))"
  using assms by (simp add: replace_string_def)

lemma post_process_string_cases:
  assumes "post_process L s = Leaf (PStr t)"
  shows "(quote_wrapped s \<and> t = butlast (tl s)) \<or> t = s"
  using assms by (auto simp: post_process_def split: if_splits option.splits)

lemma plain_string_processed:
  assumes "\<not> startswith s marker" and "no_placeholder s"
    and "\<not> (quote_wrapped s \<and> startswith (butlast (tl s)) marker)"
  shows "replace_string L ov s = Inr (post_process L s)"
proof -
  have rv: "replace_variable L ov s = Inr (post_process L s)"
    using assms(2) by (simp add: replace_variable_def re_sub_no_placeholder)
  show ?thesis
  proof (cases "\<exists>t. post_process L s = Leaf (PStr t)")
    case True
    then obtain t where t: "post_process L s = Leaf (PStr t)" by blast
    with assms(1,3) have "\<not> startswith t marker"
      using post_process_string_cases [OF t] by auto
    with assms(1) rv t show ?thesis
      using replace_string_plain [of s L ov t] by simp
  next
    case False
    then show ?thesis
      using assms(1) rv
      by (cases "post_process L s") (auto simp: replace_string_def split: scalar.splits)
  qed
qed

lemma apply_runs_substitution:
  assumes "apply_runtime_overrides L (PDict kvs) ro = Inr out"
    and "truthy L (get_defaults kvs) \<or> ro \<noteq> []"
  shows "\<exists>ov. replace_variables L ov (PDict (without_defaults L kvs)) = Inr out"
proof -
  from assms have "(case parse_overrides L ro of
           Inl e \<Rightarrow> Inl e
         | Inr ov \<Rightarrow>
             (case merge_defaults (get_defaults kvs) ov of
                Inl e \<Rightarrow> Inl e
              | Inr ov' \<Rightarrow> replace_variables L ov' (PDict (without_defaults L kvs)))) = Inr out"
    by (auto split: if_splits)
  then show ?thesis
    by (cases "parse_overrides L ro"; cases "merge_defaults (get_defaults kvs) (projr (parse_overrides L ro))")
       auto
qed

lemma replace_value_container:
  "is_container v \<Longrightarrow> replace_value L ov v = replace_variables L ov v"
  by (cases v) simp_all

lemma replace_dict_items_lookup:
  "replace_dict_items L ov kvs = Inr kvs' \<Longrightarrow> map_of kvs k = Some c \<Longrightarrow>
     \<exists>c'. map_of kvs' k = Some c' \<and> replace_value L ov c = Inr c'"
proof (induction kvs arbitrary: kvs')
  case Nil
  then show ?case by simp
next
  case (Cons kv kvs)
  from Cons.prems(1) obtain v' rest where
    v': "replace_value L ov (snd kv) = Inr v'" and
    rest: "replace_dict_items L ov kvs = Inr rest" and
    kvs': "kvs' = (fst kv, v') # rest"
    by (auto split: sum.splits)
  show ?case
  proof (cases "fst kv = k")
    case True
    with Cons.prems(2) have "c = snd kv"
      by (cases kv) simp
    with True v' kvs' show ?thesis by simp
  next
    case False
    with Cons.prems(2) have "map_of kvs k = Some c"
      by (cases kv) simp
    from Cons.IH [OF rest this] False kvs' show ?thesis by simp
  qed
qed

lemma replace_list_items_nth:
  "replace_list_items L ov xs = Inr xs' \<Longrightarrow> i < length xs \<Longrightarrow>
     i < length xs' \<and> replace_value L ov (xs ! i) = Inr (xs' ! i)"
proof (induction xs arbitrary: xs' i)
  case Nil
  then show ?case by simp
next
  case (Cons x xs)
  from Cons.prems(1) obtain x' rest where
    x': "replace_value L ov x = Inr x'" and
    rest: "replace_list_items L ov xs = Inr rest" and
    xs': "xs' = x' # rest"
    by (auto split: sum.splits)
  show ?case
  proof (cases i)
    case 0
    with x' xs' show ?thesis by simp
  next
    case (Suc j)
    with Cons.prems(2) have "j < length xs" by simp
    from Cons.IH [OF rest this] Suc xs' show ?thesis by simp
  qed
qed

lemma lookup_path_leaf: "lookup_path p (Leaf a) = Some w \<Longrightarrow> p = []"
  by (cases p) simp_all

lemma replace_value_at_path:
  "replace_value L ov c = Inr c' \<Longrightarrow> lookup_path p c = Some (Leaf (PStr s)) \<Longrightarrow>
     \<exists>r. replace_string L ov s = Inr r \<and> lookup_path p c' = Some r"
proof (induction p arbitrary: c c')
  case Nil
  then show ?case by simp
next
  case (Cons st p)
  show ?case
  proof (cases c)
    case (Leaf a)
    with Cons.prems(2) show ?thesis by simp
  next
    case (PDict kvs)
    with Cons.prems(1) obtain kvs' where
      items: "replace_dict_items L ov kvs = Inr kvs'" and c': "c' = PDict kvs'"
      by (auto split: sum.splits)
    from Cons.prems(2) PDict obtain k d where
      st: "st = Key k" and d: "map_of kvs k = Some d" and
      below: "lookup_path p d = Some (Leaf (PStr s))"
      by (cases st) (auto split: option.splits)
    from replace_dict_items_lookup [OF items d] obtain d' where
      d': "map_of kvs' k = Some d'" "replace_value L ov d = Inr d'"
      by blast
    from Cons.IH [OF d'(2) below] st c' d'(1) show ?thesis by simp
  next
    case (PList xs)
    with Cons.prems(1) obtain xs' where
      items: "replace_list_items L ov xs = Inr xs'" and c': "c' = PList xs'"
      by (auto split: sum.splits)
    from Cons.prems(2) PList obtain i where
      st: "st = Index i" and i: "i < length xs" and
      below: "lookup_path p (xs ! i) = Some (Leaf (PStr s))"
      by (cases st) (auto split: if_splits)
    from replace_list_items_nth [OF items i] have
      i': "i < length xs'" "replace_value L ov (xs ! i) = Inr (xs' ! i)"
      by simp_all
    from Cons.IH [OF i'(2) below] st c' i'(1) show ?thesis by simp
  qed
qed

lemma replace_variables_at_path:
  assumes "replace_variables L ov doc = Inr out"
    and "lookup_path p doc = Some (Leaf (PStr s))" and "p \<noteq> []"
  shows "\<exists>r. replace_string L ov s = Inr r \<and> lookup_path p out = Some r"
proof -
  from assms(2,3) have "is_container doc"
    using lookup_path_leaf by (cases doc) auto
  with assms(1) have "replace_value L ov doc = Inr out"
    by (simp add: replace_value_container)
  from replace_value_at_path [OF this assms(2)] show ?thesis .
qed

lemma fixed_string_post_process:
  assumes "fixed_string L s"
  shows "post_process L s = Leaf (PStr s)"
  using assms by (simp add: fixed_string_def post_process_def)

lemma fixed_string_kept:
  assumes "fixed_string L s"
  shows "replace_string L ov s = Inr (Leaf (PStr s))"
proof -
  from assms have nm: "\<not> startswith s marker" and np: "no_placeholder s"
    by (simp_all add: fixed_string_def)
  have pp: "post_process L s = Leaf (PStr s)"
    using assms by (rule fixed_string_post_process)
  have "replace_variable L ov s = Inr (Leaf (PStr s))"
    using np pp by (simp add: replace_variable_def re_sub_no_placeholder)
  with nm show ?thesis
    using replace_string_plain [of s L ov s] by simp
qed

lemma fixed_strings_kept:
  "all_strings (fixed_string L) v \<Longrightarrow>
     replace_value L ov v = Inr v \<and> replace_variables L ov v = Inr v"
proof (induction v)
  case (Leaf a)
  then show ?case
    by (cases a) (simp_all add: fixed_string_kept)
next
  case (PDict kvs)
  have "list_all (\<lambda>kv. all_strings (fixed_string L) (snd kv)) ys \<Longrightarrow> set ys \<subseteq> set kvs \<Longrightarrow>
      replace_dict_items L ov ys = Inr ys" for ys
  proof (induction ys)
    case Nil
    then show ?case by simp
  next
    case (Cons kv ys)
    then have "kv \<in> set kvs" "all_strings (fixed_string L) (snd kv)" by simp_all
    moreover have "snd kv \<in> Basic_BNFs.snds kv"
      by (cases kv) simp
    ultimately have "replace_value L ov (snd kv) = Inr (snd kv)"
      using PDict.IH [of kv "snd kv"] by simp
    with Cons show ?case by simp
  qed
  with PDict.prems show ?case by simp
next
  case (PList xs)
  have "list_all (all_strings (fixed_string L)) ys \<Longrightarrow> set ys \<subseteq> set xs \<Longrightarrow>
      replace_list_items L ov ys = Inr ys" for ys
  proof (induction ys)
    case Nil
    then show ?case by simp
  next
    case (Cons y ys)
    then have "replace_value L ov y = Inr y"
      using PList.IH [of y] by simp
    with Cons show ?case by simp
  qed
  with PList.prems show ?case by simp
qed

lemma no_removal_kept:
  "no_removal L v \<Longrightarrow> remove_disabled_elements L v = v \<and> v \<noteq> Leaf PNone"
proof (induction v)
  case (Leaf a)
  then show ?case by simp
next
  case (PDict kvs)
  have "list_all (\<lambda>kv. no_removal L (snd kv)) ys \<Longrightarrow> set ys \<subseteq> set kvs \<Longrightarrow>
      prune_items L ys = ys" for ys
  proof (induction ys)
    case Nil
    then show ?case by simp
  next
    case (Cons kv ys)
    then have "kv \<in> set kvs" "no_removal L (snd kv)" by simp_all
    moreover have "snd kv \<in> Basic_BNFs.snds kv"
      by (cases kv) simp
    ultimately have "remove_disabled_elements L (snd kv) = snd kv \<and> snd kv \<noteq> Leaf PNone"
      using PDict.IH [of kv "snd kv"] by simp
    with Cons show ?case by simp
  qed
  with PDict.prems show ?case by (simp add: Let_def)
next
  case (PList xs)
  have "list_all (no_removal L) ys \<Longrightarrow> set ys \<subseteq> set xs \<Longrightarrow> prune_elems L ys = ys" for ys
  proof (induction ys)
    case Nil
    then show ?case by simp
  next
    case (Cons y ys)
    then have "remove_disabled_elements L y = y \<and> y \<noteq> Leaf PNone"
      using PList.IH [of y] by simp
    with Cons show ?case by simp
  qed
  with PList.prems show ?case by (simp add: Let_def)
qed

lemma first_offending:
  "m \<in> set ns \<Longrightarrow> \<not> P m \<Longrightarrow>
     \<exists>before n after. ns = before @ n # after \<and> list_all P before \<and> \<not> P n
       \<and> find (\<lambda>x. \<not> P x) ns = Some n"
proof (induction ns)
  case Nil
  then show ?case by simp
next
  case (Cons x ns)
  show ?case
  proof (cases "P x")
    case False
    then have "x # ns = [] @ x # ns \<and> list_all P [] \<and> \<not> P x
        \<and> find (\<lambda>x. \<not> P x) (x # ns) = Some x"
      by simp
    then show ?thesis by blast
  next
    case True
    with Cons.prems have "m \<in> set ns" by auto
    from Cons.IH [OF this Cons.prems(2)] obtain before n after where
      "ns = before @ n # after" "list_all P before" "\<not> P n" "find (\<lambda>x. \<not> P x) ns = Some n"
      by blast
    with True have "x # ns = (x # before) @ n # after \<and> list_all P (x # before) \<and> \<not> P n
        \<and> find (\<lambda>x. \<not> P x) (x # ns) = Some n"
      by simp
    then show ?thesis by blast
  qed
qed

lemma conditional_nonempty: "is_conditional e \<Longrightarrow> e \<noteq> []"
  by (auto simp: is_conditional_def)

lemma placeholder_string_kept:
  assumes "replace L ov e = Inr (group0 e)" and "e \<noteq> []" and "CHR ''}'' \<notin> set e"
    and "int_of_str L (group0 e) = None" and "float_of_str L (group0 e) = None"
  shows "replace_string L ov (group0 e) = Inr (Leaf (PStr (group0 e)))"
proof -
  have "re_sub (replace L ov) (group0 e @ []) = Inr (group0 e)"
    using assms(1) re_sub_at_placeholder [OF assms(2,3), of "replace L ov" "[]"] by simp
  then have sub: "re_sub (replace L ov) (group0 e) = Inr (group0 e)"
    by simp
  have "\<not> quote_wrapped (group0 e)" "group0 e \<noteq> ''true''" "group0 e \<noteq> ''false''"
    "group0 e \<noteq> ''null''"
    by (simp_all add: quote_wrapped_def startswith_def group0_def dquote_def)
  then have pp: "post_process L (group0 e) = Leaf (PStr (group0 e))"
    using assms(4,5) by (simp add: post_process_def)
  have rv: "replace_variable L ov (group0 e) = Inr (Leaf (PStr (group0 e)))"
    using sub pp by (simp add: replace_variable_def)
  have nm: "\<not> startswith (group0 e) marker"
    using group0_not_marker [of e "[]"] by simp
  from nm rv nm show ?thesis
    by (rule replace_string_plain)
qed

lemma plain_string_succeeds:
  assumes "no_placeholder s"
  shows "\<exists>r. replace_string L ov s = Inr r"
proof (cases "startswith s marker")
  case True
  then show ?thesis by (simp add: replace_string_def)
next
  case False
  have rv: "replace_variable L ov s = Inr (post_process L s)"
    using assms by (simp add: replace_variable_def re_sub_no_placeholder)
  show ?thesis
  proof (cases "post_process L s")
    case (Leaf a)
    with False rv show ?thesis
      by (cases a) (simp_all add: replace_string_def)
  next
    case (PDict kvs)
    with False rv show ?thesis by (simp add: replace_string_def)
  next
    case (PList xs)
    with False rv show ?thesis by (simp add: replace_string_def)
  qed
qed

lemma substitution_succeeds:
  assumes ok: "\<And>s. P s \<Longrightarrow> \<exists>r. replace_string L ov s = Inr r"
  shows "all_strings P v \<Longrightarrow>
     (\<exists>out. replace_value L ov v = Inr out) \<and> (\<exists>out. replace_variables L ov v = Inr out)"
proof (induction v)
  case (Leaf a)
  then show ?case
    by (cases a) (simp_all add: ok)
next
  case (PDict kvs)
  have "list_all (\<lambda>kv. all_strings P (snd kv)) ys \<Longrightarrow> set ys \<subseteq> set kvs \<Longrightarrow>
      \<exists>ys'. replace_dict_items L ov ys = Inr ys'" for ys
  proof (induction ys)
    case Nil
    then show ?case by simp
  next
    case (Cons kv ys)
    then have "kv \<in> set kvs" "all_strings P (snd kv)" by simp_all
    moreover have "snd kv \<in> Basic_BNFs.snds kv"
      by (cases kv) simp
    ultimately obtain w where "replace_value L ov (snd kv) = Inr w"
      using PDict.IH [of kv "snd kv"] by blast
    moreover from Cons obtain ys' where "replace_dict_items L ov ys = Inr ys'"
      by auto
    ultimately show ?case by simp
  qed
  from this [of kvs] PDict.prems obtain kvs' where "replace_dict_items L ov kvs = Inr kvs'"
    by auto
  then show ?case by simp
next
  case (PList xs)
  have "list_all (all_strings P) ys \<Longrightarrow> set ys \<subseteq> set xs \<Longrightarrow>
      \<exists>ys'. replace_list_items L ov ys = Inr ys'" for ys
  proof (induction ys)
    case Nil
    then show ?case by simp
  next
    case (Cons y ys)
    then obtain w where "replace_value L ov y = Inr w"
      using PList.IH [of y] by auto
    moreover from Cons obtain ys' where "replace_list_items L ov ys = Inr ys'"
      by auto
    ultimately show ?case by simp
  qed
  from this [of xs] PList.prems obtain xs' where "replace_list_items L ov xs = Inr xs'"
    by auto
  then show ?case by simp
qed


section \<open>A run of the model\<close>

text \<open>
  With the overrides \<open>a=1\<close> and \<open>b=hi\<close>, a conditional placeholder that is the whole
  string becomes the number it evaluates to, and a string with two placeholders becomes
  the text with the number and the quoted string in it.
\<close>

lemma example_run:
  "apply_runtime_overrides ref_lib
      (PDict [(''f'', Leaf (PStr ''${1 if a else 0}'')), (''g'', Leaf (PStr ''x${a}y${b}''))])
      ''a=1;b=hi''
    = Inr (PDict [(''f'', Leaf (PInt 1)),
                  (''g'', Leaf (PStr (''x1y'' @ dquote # ''hi'' @ [dquote])))])"
  by code_simp

section \<open>Unsupported constructs in a conditional placeholder\<close>

text \<open>
  Claim C2, as stated, fails: an expression with a node outside the allowed set does not
  fail the run. The text \<^verbatim>\<open>a + 1 if a else 0\<close> parses to a tree with a \<^verbatim>\<open>BinOp\<close> node;
  the evaluator raises a \<^verbatim>\<open>ValueError\<close>, line 257 catches it, and the run returns the
  document with the placeholder as it was.
\<close>

theorem unsupported_expression_run_goes_on:
  "ast_parse ref_lib ''a + 1 if a else 0'' = Inr binop_tree
   \<and> first_unsupported binop_tree = Some ''BinOp''
   \<and> validate_and_output_json ref_lib ''config.json''
        (PDict [(''f'', Leaf (PStr ''${a + 1 if a else 0}''))]) ''a=1''
     = Inr (PDict [(''f'', Leaf (PStr ''${a + 1 if a else 0}''))])"
  by code_simp

text \<open>
  Claim C2, amended. For every conditional placeholder expression whose syntax tree holds
  a node outside the allowed set, the evaluator raises a \<^verbatim>\<open>ValueError\<close> whose message
  names the class of the first such node in the order of \<^verbatim>\<open>ast.walk\<close>; the substitution
  callback catches it and returns the text of the placeholder unchanged. The run goes on
  and the output document is produced: for every document whose strings are each that
  placeholder or free of placeholders, with an override string that parses and defaults
  that merge, the substitution returns a document in which every field that held the
  placeholder holds its text, and the pruned document is output. The expression of a
  placeholder holds no closing brace, and the number parsers of Python reject the text of
  a placeholder, which starts with a dollar sign.
\<close>

theorem unsupported_expression_left_in_place:
  assumes "is_conditional e" and "ast_parse L e = Inr tree"
    and "m \<in> set (ast_walk [tree])" and "node_class m \<notin> set allowed_types"
  shows "(\<exists>before n after.
        ast_walk [tree] = before @ n # after
        \<and> list_all (\<lambda>x. node_class x \<in> set allowed_types) before
        \<and> node_class n \<notin> set allowed_types
        \<and> evaluate_conditional L ov e
          = Inl (ValueError, ''Unsupported operation: '' @ node_class n))
    \<and> replace L ov e = Inr (group0 e)
    \<and> (CHR ''}'' \<notin> set e \<longrightarrow>
        int_of_str L (group0 e) = None \<longrightarrow> float_of_str L (group0 e) = None \<longrightarrow>
        parse_overrides L runtime_overrides = Inr parsed \<longrightarrow>
        merge_defaults (get_defaults kvs) parsed = Inr merged \<longrightarrow>
        all_strings (\<lambda>s. s = group0 e \<or> no_placeholder s) (PDict (without_defaults L kvs)) \<longrightarrow>
        (\<exists>out.
           apply_runtime_overrides L (PDict kvs) runtime_overrides = Inr out
           \<and> validate_and_output_json L file_path (PDict kvs) runtime_overrides
             = Inr (remove_disabled_elements L out)
           \<and> (\<forall>p. lookup_path p (PDict (without_defaults L kvs)) = Some (Leaf (PStr (group0 e)))
                \<longrightarrow> lookup_path p out = Some (Leaf (PStr (group0 e))))))"
proof (intro conjI impI)
  obtain before n after where
    walk: "ast_walk [tree] = before @ n # after"
      "list_all (\<lambda>x. node_class x \<in> set allowed_types) before"
      "node_class n \<notin> set allowed_types" and
    found: "find (\<lambda>x. node_class x \<notin> set allowed_types) (ast_walk [tree]) = Some n"
    using first_offending [OF assms(3), of "\<lambda>x. node_class x \<in> set allowed_types"] assms(4)
    by auto
  from found have "first_unsupported tree = Some (node_class n)"
    by (simp add: first_unsupported_def)
  then have ev: "evaluate_conditional L ov' e
      = Inl (ValueError, ''Unsupported operation: '' @ node_class n)" for ov'
    using assms(2)
    by (simp add: evaluate_conditional_def safe_evaluate_condition_def handle_eval_error_def)
  from walk ev show "\<exists>before n after.
        ast_walk [tree] = before @ n # after
        \<and> list_all (\<lambda>x. node_class x \<in> set allowed_types) before
        \<and> node_class n \<notin> set allowed_types
        \<and> evaluate_conditional L ov e
          = Inl (ValueError, ''Unsupported operation: '' @ node_class n)"
    by blast
  have cb: "replace L ov' e = Inr (group0 e)" for ov'
    using assms(1) ev [of ov'] by (simp add: replace_def is_ValueError_def)
  then show "replace L ov e = Inr (group0 e)" .
  assume brace: "CHR ''}'' \<notin> set e"
    and ints: "int_of_str L (group0 e) = None" and floats: "float_of_str L (group0 e) = None"
    and parsed: "parse_overrides L runtime_overrides = Inr parsed"
    and merged: "merge_defaults (get_defaults kvs) parsed = Inr merged"
    and strs: "all_strings (\<lambda>s. s = group0 e \<or> no_placeholder s)
        (PDict (without_defaults L kvs))"
  have kept: "replace_string L ov' (group0 e) = Inr (Leaf (PStr (group0 e)))" for ov'
    using cb [of ov'] conditional_nonempty [OF assms(1)] brace ints floats
    by (rule placeholder_string_kept)
  have run: "\<exists>out. apply_runtime_overrides L (PDict kvs) runtime_overrides = Inr out
      \<and> (\<forall>p. lookup_path p (PDict (without_defaults L kvs)) = Some (Leaf (PStr (group0 e)))
            \<longrightarrow> lookup_path p out = Some (Leaf (PStr (group0 e))))"
  proof (cases "\<not> truthy L (get_defaults kvs) \<and> runtime_overrides = []")
    case True
    then have "apply_runtime_overrides L (PDict kvs) runtime_overrides = Inr (PDict kvs)"
      "without_defaults L kvs = kvs"
      by (simp_all add: without_defaults_def)
    then show ?thesis by simp
  next
    case False
    have "s = group0 e \<or> no_placeholder s \<Longrightarrow> \<exists>r. replace_string L merged s = Inr r" for s
      using kept [of merged] plain_string_succeeds [of s L merged] by auto
    from substitution_succeeds [of "\<lambda>s. s = group0 e \<or> no_placeholder s" L merged, OF this strs]
    obtain out where out: "replace_variables L merged (PDict (without_defaults L kvs)) = Inr out"
      by blast
    with False parsed merged
    have app: "apply_runtime_overrides L (PDict kvs) runtime_overrides = Inr out"
      by auto
    have "lookup_path p out = Some (Leaf (PStr (group0 e)))"
      if at: "lookup_path p (PDict (without_defaults L kvs)) = Some (Leaf (PStr (group0 e)))"
      for p
    proof -
      from at have "p \<noteq> []" by auto
      from replace_variables_at_path [OF out at this] kept [of merged] show ?thesis
        by auto
    qed
    with app show ?thesis by blast
  qed
  then obtain out where
    "apply_runtime_overrides L (PDict kvs) runtime_overrides = Inr out"
    "\<forall>p. lookup_path p (PDict (without_defaults L kvs)) = Some (Leaf (PStr (group0 e)))
        \<longrightarrow> lookup_path p out = Some (Leaf (PStr (group0 e)))"
    by blast
  moreover from this(1)
  have "validate_and_output_json L file_path (PDict kvs) runtime_overrides
      = Inr (remove_disabled_elements L out)"
    by (simp add: validate_and_output_json_def)
  ultimately show "\<exists>out.
           apply_runtime_overrides L (PDict kvs) runtime_overrides = Inr out
           \<and> validate_and_output_json L file_path (PDict kvs) runtime_overrides
             = Inr (remove_disabled_elements L out)
           \<and> (\<forall>p. lookup_path p (PDict (without_defaults L kvs)) = Some (Leaf (PStr (group0 e)))
                \<longrightarrow> lookup_path p out = Some (Leaf (PStr (group0 e))))"
    by blast
qed


theorem unsupported_expression_left_in_place_witness:
  "is_conditional ''a + 1 if a else 0''
   \<and> ast_parse ref_lib ''a + 1 if a else 0'' = Inr binop_tree
   \<and> binop_node \<in> set (ast_walk [binop_tree])
   \<and> node_class binop_node \<notin> set allowed_types
   \<and> CHR ''}'' \<notin> set ''a + 1 if a else 0''
   \<and> int_of_str ref_lib (group0 ''a + 1 if a else 0'') = None
   \<and> float_of_str ref_lib (group0 ''a + 1 if a else 0'') = None
   \<and> parse_overrides ref_lib ''a=1'' = Inr [''a'' \<mapsto> Leaf (PInt 1)]
   \<and> merge_defaults
        (get_defaults [(''f'', Leaf (PStr ''${a + 1 if a else 0}'')), (''g'', PList [Leaf (PStr ''plain'')])])
        [''a'' \<mapsto> Leaf (PInt 1)]
     = Inr [''a'' \<mapsto> Leaf (PInt 1)]
   \<and> all_strings (\<lambda>s. s = group0 ''a + 1 if a else 0'' \<or> no_placeholder s)
        (PDict (without_defaults ref_lib
           [(''f'', Leaf (PStr ''${a + 1 if a else 0}'')), (''g'', PList [Leaf (PStr ''plain'')])]))
   \<and> (\<exists>before n after.
        ast_walk [binop_tree] = before @ n # after
        \<and> list_all (\<lambda>x. node_class x \<in> set allowed_types) before
        \<and> node_class n \<notin> set allowed_types
        \<and> evaluate_conditional ref_lib Map.empty ''a + 1 if a else 0''
          = Inl (ValueError, ''Unsupported operation: '' @ node_class n))
   \<and> evaluate_conditional ref_lib Map.empty ''a + 1 if a else 0''
     = Inl (ValueError, ''Unsupported operation: BinOp'')
   \<and> replace ref_lib Map.empty ''a + 1 if a else 0'' = Inr (group0 ''a + 1 if a else 0'')
   \<and> (\<exists>out.
        apply_runtime_overrides ref_lib
          (PDict [(''f'', Leaf (PStr ''${a + 1 if a else 0}'')), (''g'', PList [Leaf (PStr ''plain'')])])
          ''a=1'' = Inr out
        \<and> validate_and_output_json ref_lib ''config.json''
            (PDict [(''f'', Leaf (PStr ''${a + 1 if a else 0}'')), (''g'', PList [Leaf (PStr ''plain'')])])
            ''a=1''
          = Inr (remove_disabled_elements ref_lib out)
        \<and> lookup_path [Key ''f''] out = Some (Leaf (PStr (group0 ''a + 1 if a else 0''))))"
proof -
  have h1: "is_conditional ''a + 1 if a else 0''"
    by code_simp
  have h2: "ast_parse ref_lib ''a + 1 if a else 0'' = Inr binop_tree"
    by (simp add: ref_lib_def ref_parse_def)
  have h3: "binop_node \<in> set (ast_walk [binop_tree])"
    by (simp add: binop_tree_def binop_node_def load_node_def)
  have h4: "node_class binop_node \<notin> set allowed_types"
    by (simp add: binop_node_def allowed_types_def)
  have h5: "CHR ''}'' \<notin> set ''a + 1 if a else 0''"
    by simp
  have h6: "int_of_str ref_lib (group0 ''a + 1 if a else 0'') = None"
    by code_simp
  have h7: "float_of_str ref_lib (group0 ''a + 1 if a else 0'') = None"
    by code_simp
  have h8: "parse_overrides ref_lib ''a=1'' = Inr [''a'' \<mapsto> Leaf (PInt 1)]"
    by (simp add: parse_overrides_def coerce_override_def string_defs ref_defs)
  have h9: "merge_defaults
        (get_defaults [(''f'', Leaf (PStr ''${a + 1 if a else 0}'')), (''g'', PList [Leaf (PStr ''plain'')])])
        [''a'' \<mapsto> Leaf (PInt 1)]
     = Inr [''a'' \<mapsto> Leaf (PInt 1)]"
    by (simp add: get_defaults_def)
  have h10: "all_strings (\<lambda>s. s = group0 ''a + 1 if a else 0'' \<or> no_placeholder s)
        (PDict (without_defaults ref_lib
           [(''f'', Leaf (PStr ''${a + 1 if a else 0}'')), (''g'', PList [Leaf (PStr ''plain'')])]))"
    by code_simp
  have at: "lookup_path [Key ''f'']
        (PDict (without_defaults ref_lib
           [(''f'', Leaf (PStr ''${a + 1 if a else 0}'')), (''g'', PList [Leaf (PStr ''plain'')])]))
      = Some (Leaf (PStr (group0 ''a + 1 if a else 0'')))"
    by code_simp
  have named: "evaluate_conditional ref_lib Map.empty ''a + 1 if a else 0''
     = Inl (ValueError, ''Unsupported operation: BinOp'')"
    by code_simp
  note t = unsupported_expression_left_in_place [OF h1 h2 h3 h4, where ov = Map.empty
      and runtime_overrides = "''a=1''" and parsed = "[''a'' \<mapsto> Leaf (PInt 1)]"
      and merged = "[''a'' \<mapsto> Leaf (PInt 1)]" and file_path = "''config.json''"
      and kvs = "[(''f'', Leaf (PStr ''${a + 1 if a else 0}'')), (''g'', PList [Leaf (PStr ''plain'')])]"]
  from t have c1: "\<exists>before n after.
        ast_walk [binop_tree] = before @ n # after
        \<and> list_all (\<lambda>x. node_class x \<in> set allowed_types) before
        \<and> node_class n \<notin> set allowed_types
        \<and> evaluate_conditional ref_lib Map.empty ''a + 1 if a else 0''
          = Inl (ValueError, ''Unsupported operation: '' @ node_class n)"
    by (rule conjunct1)
  from t have c2: "replace ref_lib Map.empty ''a + 1 if a else 0'' = Inr (group0 ''a + 1 if a else 0'')"
    by blast
  from t h5 h6 h7 h8 h9 h10 at have c3: "\<exists>out.
        apply_runtime_overrides ref_lib
          (PDict [(''f'', Leaf (PStr ''${a + 1 if a else 0}'')), (''g'', PList [Leaf (PStr ''plain'')])])
          ''a=1'' = Inr out
        \<and> validate_and_output_json ref_lib ''config.json''
            (PDict [(''f'', Leaf (PStr ''${a + 1 if a else 0}'')), (''g'', PList [Leaf (PStr ''plain'')])])
            ''a=1''
          = Inr (remove_disabled_elements ref_lib out)
        \<and> lookup_path [Key ''f''] out = Some (Leaf (PStr (group0 ''a + 1 if a else 0'')))"
    by blast
  show ?thesis
    using h1 h2 h3 h4 h5 h6 h7 h8 h9 h10 c1 named c2 c3 by blast
qed


section \<open>A complex value inside a larger string\<close>

text \<open>
  Claim C3, as stated, fails: the code has no error for a complex value inside a larger
  string. With \<open>v\<close> bound to an object by the defaults, the string \<^verbatim>\<open>x${v}y\<close> becomes
  the string that holds the marker and the name in place of the placeholder, and the run
  returns a document.
\<close>

theorem embedded_container_no_error:
  "validate_and_output_json ref_lib ''config.json''
      (PDict [(''defaults'', PList [PDict [(''v'', PDict [(''a'', Leaf (PInt 1))])]]),
              (''f'', Leaf (PStr ''x${v}y''))]) []
    = Inr (PDict [(''f'', Leaf (PStr ''x___TEMP_MARKER___vy''))])"
  by code_simp

text \<open>
  Claim C3, amended. For every string that holds a placeholder for \<open>v\<close> (a name that is
  not empty, has no closing brace and is no conditional) after a text \<open>pre\<close> without
  the two characters that open a placeholder, where \<open>v\<close> is bound to an object or an
  array, the callback raises no error: it returns the marker followed by \<open>v\<close>, which
  takes the place of the placeholder, and the text after all substitutions is
  post-processed as any other; an error can only come from the rest of the string.
\<close>

theorem container_placeholder_no_error:
  assumes "\<not> str_in ''${'' pre" and "v \<noteq> []" and "CHR ''}'' \<notin> set v"
    and "\<not> is_conditional v" and "is_container (overrides_get ov v)"
  shows "replace L ov v = Inr (marker @ v)
    \<and> replace_variable L ov (pre @ group0 v @ post)
      = (case re_sub (replace L ov) post of
           Inl e \<Rightarrow> Inl e
         | Inr t \<Rightarrow> Inr (post_process L (pre @ marker @ v @ t)))"
proof -
  have r: "replace L ov v = Inr (marker @ v)"
    using assms(4,5) by (rule replace_container)
  show ?thesis
    using r re_sub_prefix [OF assms(1-3), of "replace L ov" post]
    by (simp add: replace_variable_def split: sum.splits)
qed

theorem container_placeholder_no_error_witness:
  "\<not> str_in ''${'' ''x'' \<and> ''v'' \<noteq> [] \<and> CHR ''}'' \<notin> set ''v'' \<and> \<not> is_conditional ''v''
   \<and> is_container (overrides_get ([''v'' \<mapsto> PDict [(''a'', Leaf (PInt 1))]] :: dec overrides) ''v'')
   \<and> replace ref_lib [''v'' \<mapsto> PDict [(''a'', Leaf (PInt 1))]] ''v'' = Inr (marker @ ''v'')
   \<and> replace_variable ref_lib [''v'' \<mapsto> PDict [(''a'', Leaf (PInt 1))]] (''x'' @ group0 ''v'' @ ''y'')
     = Inr (Leaf (PStr (''x'' @ marker @ ''vy'')))"
proof -
  have h1: "\<not> str_in ''${'' ''x''" by code_simp
  have h2: "''v'' \<noteq> []" by simp
  have h3: "CHR ''}'' \<notin> set ''v''" by simp
  have h4: "\<not> is_conditional ''v''" by code_simp
  have h5: "is_container (overrides_get ([''v'' \<mapsto> PDict [(''a'', Leaf (PInt 1))]] :: dec overrides) ''v'')"
    by (simp add: overrides_get_def)
  have r: "re_sub (replace ref_lib [''v'' \<mapsto> PDict [(''a'', Leaf (PInt 1))]]) ''y'' = Inr ''y''"
    by (simp add: match_placeholder_def)
  have pp: "post_process ref_lib (''x'' @ marker @ ''v'' @ ''y'') = Leaf (PStr (''x'' @ marker @ ''vy''))"
    by code_simp
  show ?thesis
    using h1 h2 h3 h4 h5 r pp
      container_placeholder_no_error [OF h1 h2 h3 h4 h5, of ref_lib "''y''"]
    by simp
qed


section \<open>A complex value as the whole value of a field\<close>

text \<open>
  Claim C7 says that a field whose string is exactly one placeholder for a variable bound
  to an object or an array receives that object or array. The code marks the field with
  the marker followed by the name and then assigns the bound value directly (lines 198 to
  203), but it recovers the name with \<^verbatim>\<open>replace(marker, "")\<close>, which removes every
  occurrence of the marker and not only the prefix that line 264 put there. For a
  variable whose name holds the text of the marker the lookup of line 200 is made under
  another name: the object bound to \<^verbatim>\<open>a___TEMP_MARKER___b\<close> is looked up as \<^verbatim>\<open>ab\<close>, and
  the field becomes \<^verbatim>\<open>None\<close>.
\<close>

theorem marker_in_name_not_spliced:
  "apply_runtime_overrides ref_lib
      (PDict [(''defaults'',
                 PList [PDict [(''a___TEMP_MARKER___b'', PDict [(''x'', Leaf (PInt 1))])]]),
              (''f'', Leaf (PStr ''${a___TEMP_MARKER___b}''))]) []
    = Inr (PDict [(''f'', Leaf PNone)])"
  by code_simp

text \<open>
  The direct assignment reaches its aim for the other names. For a field (a dict value or
  a list item at any depth) whose string is exactly one placeholder for \<open>v\<close>, where
  \<open>v\<close> is not empty, has no closing brace, is no conditional and does not hold the text
  of the marker, and \<open>v\<close> is bound to an object or an array, the substitution puts that
  object or array in the place of the string. The number parsers of Python reject the
  marked string, which starts with an underscore.
\<close>

lemma whole_placeholder_spliced:
  assumes "v \<noteq> []" and "CHR ''}'' \<notin> set v" and "\<not> is_conditional v"
    and "\<not> str_in marker v" and "is_container (overrides_get ov v)"
    and "int_of_str L (marker @ v) = None" and "float_of_str L (marker @ v) = None"
    and "replace_variables L ov doc = Inr out"
    and "lookup_path p doc = Some (Leaf (PStr (group0 v)))" and "p \<noteq> []"
  shows "replace_value L ov (Leaf (PStr (group0 v))) = Inr (overrides_get ov v)
    \<and> lookup_path p out = Some (overrides_get ov v)"
proof -
  have r: "replace L ov v = Inr (marker @ v)"
    using assms(3,5) by (rule replace_container)
  have "re_sub (replace L ov) (group0 v @ []) = Inr (marker @ v)"
    using r re_sub_at_placeholder [OF assms(1,2), of "replace L ov" "[]"] by simp
  then have sub: "re_sub (replace L ov) (group0 v) = Inr (marker @ v)"
    by simp
  have pp: "post_process L (marker @ v) = Leaf (PStr (marker @ v))"
    using assms(6,7) marker_text_not_special(1-4) [of v]
    by (simp add: post_process_def)
  have rv: "replace_variable L ov (group0 v) = Inr (Leaf (PStr (marker @ v)))"
    using sub pp by (simp add: replace_variable_def)
  have nm: "\<not> startswith (group0 v) marker"
    using group0_not_marker [of v "[]"] by simp
  have "replace_string L ov (group0 v) = Inr (resolve_marker ov (marker @ v))"
    using nm rv marker_text_not_special(5) by (rule replace_string_of_marker)
  then have rs: "replace_string L ov (group0 v) = Inr (overrides_get ov v)"
    using assms(4) by (simp add: resolve_marker_def str_remove_marker)
  obtain w where "replace_string L ov (group0 v) = Inr w" "lookup_path p out = Some w"
    using replace_variables_at_path [OF assms(8,9,10)] by blast
  with rs show ?thesis
    by simp
qed

lemma whole_placeholder_spliced_example:
  "''obj'' \<noteq> [] \<and> CHR ''}'' \<notin> set ''obj'' \<and> \<not> is_conditional ''obj'' \<and> \<not> str_in marker ''obj''
   \<and> is_container (overrides_get ([''obj'' \<mapsto> PDict [(''a'', Leaf (PInt 1))]] :: dec overrides) ''obj'')
   \<and> int_of_str ref_lib (marker @ ''obj'') = None \<and> float_of_str ref_lib (marker @ ''obj'') = None
   \<and> replace_variables ref_lib [''obj'' \<mapsto> PDict [(''a'', Leaf (PInt 1))]]
        (PDict [(''field'', Leaf (PStr (group0 ''obj'')))])
     = Inr (PDict [(''field'', PDict [(''a'', Leaf (PInt 1))])])
   \<and> lookup_path [Key ''field''] (PDict [(''field'', Leaf (PStr (group0 ''obj'')))] :: dec json)
     = Some (Leaf (PStr (group0 ''obj'')))
   \<and> [Key ''field''] \<noteq> []
   \<and> replace_value ref_lib [''obj'' \<mapsto> PDict [(''a'', Leaf (PInt 1))]] (Leaf (PStr (group0 ''obj'')))
     = Inr (PDict [(''a'', Leaf (PInt 1))])
   \<and> lookup_path [Key ''field''] (PDict [(''field'', PDict [(''a'', Leaf (PInt 1))])] :: dec json)
     = Some (PDict [(''a'', Leaf (PInt 1))])"
proof -
  have h1: "''obj'' \<noteq> []" by simp
  have h2: "CHR ''}'' \<notin> set ''obj''" by simp
  have h3: "\<not> is_conditional ''obj''" by code_simp
  have h4: "\<not> str_in marker ''obj''" by code_simp
  have h5: "is_container (overrides_get ([''obj'' \<mapsto> PDict [(''a'', Leaf (PInt 1))]] :: dec overrides) ''obj'')"
    by (simp add: overrides_get_def)
  have h6: "int_of_str ref_lib (marker @ ''obj'') = None" by code_simp
  have h7: "float_of_str ref_lib (marker @ ''obj'') = None" by code_simp
  have h8: "replace_variables ref_lib [''obj'' \<mapsto> PDict [(''a'', Leaf (PInt 1))]]
        (PDict [(''field'', Leaf (PStr (group0 ''obj'')))])
     = Inr (PDict [(''field'', PDict [(''a'', Leaf (PInt 1))])])"
    by code_simp
  have h9: "lookup_path [Key ''field''] (PDict [(''field'', Leaf (PStr (group0 ''obj'')))] :: dec json)
     = Some (Leaf (PStr (group0 ''obj'')))"
    by simp
  have h10: "[Key ''field''] \<noteq> []" by simp
  have g: "overrides_get ([''obj'' \<mapsto> PDict [(''a'', Leaf (PInt 1))]] :: dec overrides) ''obj''
      = PDict [(''a'', Leaf (PInt 1))]"
    by (simp add: overrides_get_def)
  note t = whole_placeholder_spliced [OF h1 h2 h3 h4 h5 h6 h7 h8 h9 h10, unfolded g]
  show ?thesis
    using h1 h2 h3 h4 h5 h6 h7 h8 h9 h10 t by blast
qed


section \<open>The text null\<close>

text \<open>
  Claim C8. For every string value whose text, after all its placeholders are
  substituted, is exactly \<^verbatim>\<open>null\<close>, the substitution returns the string of these four
  characters, not \<^verbatim>\<open>None\<close>: so does \<^verbatim>\<open>replace_variable\<close>, and so does the pass for the
  field that holds the string.
\<close>

theorem null_text_stays_string:
  assumes "re_sub (replace L ov) s = Inr ''null''"
  shows "replace_variable L ov s = Inr (Leaf (PStr ''null''))
    \<and> replace_value L ov (Leaf (PStr s)) = Inr (Leaf (PStr ''null''))"
proof -
  have pp: "post_process L ''null'' = Leaf (PStr ''null'')"
    by (simp add: post_process_def quote_wrapped_def startswith_def dquote_def)
  have rv: "replace_variable L ov s = Inr (Leaf (PStr ''null''))"
    using assms pp by (simp add: replace_variable_def)
  have nm: "\<not> startswith s marker"
  proof
    assume "startswith s marker"
    then obtain t where s: "s = CHR ''_'' # t"
      using marker_head by blast
    with assms obtain u where "''null'' = CHR ''_'' # u"
      using re_sub_head [of "replace L ov" "CHR ''_''" t "''null''"] by auto
    then show False by simp
  qed
  have "\<not> startswith ''null'' marker"
    by (simp add: startswith_def marker_def)
  with nm rv have "replace_string L ov s = Inr (Leaf (PStr ''null''))"
    by (rule replace_string_plain)
  with rv show ?thesis by simp
qed

theorem null_text_stays_string_witness:
  "re_sub (replace ref_lib Map.empty) ''null'' = Inr ''null''
   \<and> replace_variable ref_lib Map.empty ''null'' = Inr (Leaf (PStr ''null''))
   \<and> replace_value ref_lib Map.empty (Leaf (PStr ''null'')) = Inr (Leaf (PStr ''null''))"
proof -
  have h: "re_sub (replace ref_lib Map.empty) ''null'' = Inr ''null''"
    by (simp add: match_placeholder_def)
  show ?thesis
    using h null_text_stays_string [OF h] by blast
qed


section \<open>Post-processing of strings without a placeholder\<close>

text \<open>
  Claim C9, as stated, fails for a string leaf that, with its double quotes stripped,
  starts with the marker: lines 198 to 203 take it for a marked string. The leaf below is
  wrapped in double quotes; it does not come out with its quotes stripped, it is replaced
  by the value bound to \<open>x\<close>.
\<close>

theorem quoted_marker_leaf_replaced:
  "apply_runtime_overrides ref_lib
      (PDict [(''a'', Leaf (PStr (dquote # marker @ ''x'' @ [dquote])))]) ''x=1''
    = Inr (PDict [(''a'', Leaf (PInt 1))])"
  by code_simp

text \<open>
  Claim C9, amended. Whenever the defaults or the override string are not empty and the
  substitution succeeds, every string leaf of the document (without its defaults) that
  holds no placeholder and starts with the marker neither as it is nor with its double
  quotes stripped is replaced by its whole-string post-processing: a string wrapped in
  double quotes loses them, the texts \<^verbatim>\<open>true\<close> and \<^verbatim>\<open>false\<close> become the booleans, and a
  text that parses as an integer, or else as a float, becomes that number.
\<close>

theorem string_leaves_post_processed:
  assumes "apply_runtime_overrides L (PDict kvs) runtime_overrides = Inr out"
    and "truthy L (get_defaults kvs) \<or> runtime_overrides \<noteq> []"
    and "lookup_path p (PDict (without_defaults L kvs)) = Some (Leaf (PStr s))" and "p \<noteq> []"
    and "no_placeholder s" and "\<not> startswith s marker"
    and "\<not> (quote_wrapped s \<and> startswith (butlast (tl s)) marker)"
  shows "lookup_path p out = Some (post_process L s)
    \<and> (quote_wrapped s \<longrightarrow> post_process L s = Leaf (PStr (butlast (tl s))))
    \<and> (s = ''true'' \<longrightarrow> post_process L s = Leaf (PBool True))
    \<and> (s = ''false'' \<longrightarrow> post_process L s = Leaf (PBool False))
    \<and> (\<not> quote_wrapped s \<longrightarrow> s \<noteq> ''true'' \<longrightarrow> s \<noteq> ''false'' \<longrightarrow> s \<noteq> ''null'' \<longrightarrow>
         int_of_str L s = Some i \<longrightarrow> post_process L s = Leaf (PInt i))
    \<and> (\<not> quote_wrapped s \<longrightarrow> s \<noteq> ''true'' \<longrightarrow> s \<noteq> ''false'' \<longrightarrow> s \<noteq> ''null'' \<longrightarrow>
         int_of_str L s = None \<longrightarrow> float_of_str L s = Some x \<longrightarrow>
         post_process L s = Leaf (PFloat x))"
proof -
  obtain ov where "replace_variables L ov (PDict (without_defaults L kvs)) = Inr out"
    using apply_runs_substitution [OF assms(1,2)] by blast
  then obtain r where "replace_string L ov s = Inr r" "lookup_path p out = Some r"
    using replace_variables_at_path assms(3,4) by blast
  then have at: "lookup_path p out = Some (post_process L s)"
    using plain_string_processed [OF assms(6,5,7), of L ov] by simp
  have "\<not> quote_wrapped ''true''" "\<not> quote_wrapped ''false''"
    by (simp_all add: quote_wrapped_def startswith_def dquote_def)
  then show ?thesis
    using at by (auto simp: post_process_def)
qed

theorem string_leaves_post_processed_witness:
  "apply_runtime_overrides ref_lib
       (PDict [(''a'', Leaf (PStr (dquote # ''hi'' @ [dquote]))), (''b'', PList [Leaf (PStr ''42'')])])
       ''x=1''
     = Inr (PDict [(''a'', Leaf (PStr ''hi'')), (''b'', PList [Leaf (PInt 42)])])
   \<and> (truthy ref_lib (get_defaults [(''a'', Leaf (PStr (dquote # ''hi'' @ [dquote]))),
          (''b'', PList [Leaf (PStr ''42'')])]) \<or> ''x=1'' \<noteq> [])
   \<and> lookup_path [Key ''b'', Index 0]
        (PDict (without_defaults ref_lib [(''a'', Leaf (PStr (dquote # ''hi'' @ [dquote]))),
          (''b'', PList [Leaf (PStr ''42'')])]))
     = Some (Leaf (PStr ''42''))
   \<and> [Key ''b'', Index 0] \<noteq> []
   \<and> no_placeholder ''42'' \<and> \<not> startswith ''42'' marker
   \<and> \<not> (quote_wrapped ''42'' \<and> startswith (butlast (tl ''42'')) marker)
   \<and> \<not> quote_wrapped ''42'' \<and> int_of_str ref_lib ''42'' = Some 42
   \<and> lookup_path [Key ''b'', Index 0]
        (PDict [(''a'', Leaf (PStr ''hi'')), (''b'', PList [Leaf (PInt 42)])] :: dec json)
     = Some (post_process ref_lib ''42'')
   \<and> post_process ref_lib ''42'' = Leaf (PInt 42)"
proof -
  have h1: "apply_runtime_overrides ref_lib
       (PDict [(''a'', Leaf (PStr (dquote # ''hi'' @ [dquote]))), (''b'', PList [Leaf (PStr ''42'')])])
       ''x=1''
     = Inr (PDict [(''a'', Leaf (PStr ''hi'')), (''b'', PList [Leaf (PInt 42)])])"
    by code_simp
  have h2: "truthy ref_lib (get_defaults [(''a'', Leaf (PStr (dquote # ''hi'' @ [dquote]))),
          (''b'', PList [Leaf (PStr ''42'')])]) \<or> ''x=1'' \<noteq> []"
    by simp
  have h3: "lookup_path [Key ''b'', Index 0]
        (PDict (without_defaults ref_lib [(''a'', Leaf (PStr (dquote # ''hi'' @ [dquote]))),
          (''b'', PList [Leaf (PStr ''42'')])]))
     = Some (Leaf (PStr ''42''))"
    by code_simp
  have h4: "[Key ''b'', Index 0] \<noteq> []" by simp
  have h5: "no_placeholder ''42''" by code_simp
  have h6: "\<not> startswith ''42'' marker" by code_simp
  have h7: "\<not> (quote_wrapped ''42'' \<and> startswith (butlast (tl ''42'')) marker)" by code_simp
  have h8: "\<not> quote_wrapped ''42''" by code_simp
  have h9: "int_of_str ref_lib ''42'' = Some 42" by code_simp
  note t = string_leaves_post_processed [OF h1 h2 h3 h4 h5 h6 h7, of 42]
  from t have at: "lookup_path [Key ''b'', Index 0]
        (PDict [(''a'', Leaf (PStr ''hi'')), (''b'', PList [Leaf (PInt 42)])] :: dec json)
     = Some (post_process ref_lib ''42'')"
    by (rule conjunct1)
  have pp: "post_process ref_lib ''42'' = Leaf (PInt 42)"
    by code_simp
  show ?thesis
    using h1 h2 h3 h4 h5 h6 h7 h8 h9 at pp by blast
qed


section \<open>A string value inside a larger string\<close>

text \<open>
  Claim C10, as stated, fails when the text after the substitutions is itself wrapped in
  double quotes: line 280 then strips one quote of a substituted value. With \<open>a\<close> and
  \<open>b\<close> bound to the strings \<open>x\<close> and \<open>y\<close>, the string of the two placeholders
  becomes \<open>x\<close>, two double quotes and \<open>y\<close>, in which neither value is wrapped in
  double quotes.
\<close>

theorem adjacent_strings_lose_quotes:
  "apply_runtime_overrides ref_lib (PDict [(''f'', Leaf (PStr ''${a}${b}''))]) ''a=x;b=y''
     = Inr (PDict [(''f'', Leaf (PStr (''x'' @ [dquote, dquote] @ ''y'')))])
   \<and> \<not> str_in (dquote # ''x'' @ [dquote]) (''x'' @ [dquote, dquote] @ ''y'')
   \<and> \<not> str_in (dquote # ''y'' @ [dquote]) (''x'' @ [dquote, dquote] @ ''y'')"
  by code_simp

text \<open>
  Claim C10, amended. For every string that holds a placeholder for \<open>v\<close> (a name that is
  not empty, has no closing brace and is no conditional) after a text \<open>pre\<close> that has no
  opening of a placeholder and does not start with the marker, where \<open>v\<close> is bound to
  a string \<open>s\<close> and the rest of the string is substituted to \<open>t\<close>: provided the text
  after the substitutions is not itself wrapped in double quotes (the number parsers of
  Python reject it, for the double quote in it), the result is that text as a string,
  which holds \<open>s\<close> wrapped in double quotes.
\<close>

theorem embedded_string_keeps_quotes:
  assumes "\<not> str_in ''${'' pre" and "v \<noteq> []" and "CHR ''}'' \<notin> set v"
    and "\<not> is_conditional v" and "overrides_get ov v = Leaf (PStr s)"
    and "re_sub (replace L ov) post = Inr t"
    and "\<not> startswith pre marker"
    and "\<not> quote_wrapped (pre @ dquote # s @ dquote # t)"
    and "int_of_str L (pre @ dquote # s @ dquote # t) = None"
    and "float_of_str L (pre @ dquote # s @ dquote # t) = None"
  shows "replace_value L ov (Leaf (PStr (pre @ group0 v @ post)))
      = Inr (Leaf (PStr (pre @ dquote # s @ dquote # t)))
    \<and> str_in (dquote # s @ [dquote]) (pre @ dquote # s @ dquote # t)"
proof -
  let ?T = "pre @ dquote # s @ dquote # t"
  have r: "replace L ov v = Inr (dquote # s @ [dquote])"
    using assms(4,5) by (simp add: replace_def)
  have sub: "re_sub (replace L ov) (pre @ group0 v @ post) = Inr ?T"
    using r assms(6) re_sub_prefix [OF assms(1-3), of "replace L ov" post] by simp
  have "dquote \<in> set ?T" by simp
  moreover have "dquote \<notin> set ''true''" "dquote \<notin> set ''false''" "dquote \<notin> set ''null''"
    by (simp_all add: dquote_def)
  ultimately have ne: "?T \<noteq> ''true''" "?T \<noteq> ''false''" "?T \<noteq> ''null''"
    by metis+
  have pp: "post_process L ?T = Leaf (PStr ?T)"
    using assms(8-10) ne by (simp add: post_process_def)
  have rv: "replace_variable L ov (pre @ group0 v @ post) = Inr (Leaf (PStr ?T))"
    using sub pp by (simp add: replace_variable_def)
  have "CHR ''$'' \<notin> set marker" "dquote \<notin> set marker"
    by (simp_all add: marker_def dquote_def)
  then have nm: "\<not> startswith (pre @ group0 v @ post) marker" "\<not> startswith ?T marker"
    using assms(7) startswith_append_other [of pre "CHR ''$''" _ marker]
      startswith_append_other [of pre dquote _ marker]
    by (auto simp: group0_def)
  have "replace_string L ov (pre @ group0 v @ post) = Inr (Leaf (PStr ?T))"
    using nm(1) rv nm(2) by (rule replace_string_plain)
  moreover have "str_in (dquote # s @ [dquote]) ?T"
    using str_in_append [of "dquote # s @ [dquote]" pre t] by simp
  ultimately show ?thesis by simp
qed

theorem embedded_string_keeps_quotes_witness:
  "\<not> str_in ''${'' ''hello '' \<and> ''v'' \<noteq> [] \<and> CHR ''}'' \<notin> set ''v'' \<and> \<not> is_conditional ''v''
   \<and> overrides_get ([''v'' \<mapsto> Leaf (PStr ''bob'')] :: dec overrides) ''v'' = Leaf (PStr ''bob'')
   \<and> re_sub (replace ref_lib [''v'' \<mapsto> Leaf (PStr ''bob'')]) ''!'' = Inr ''!''
   \<and> \<not> startswith ''hello '' marker
   \<and> \<not> quote_wrapped (''hello '' @ dquote # ''bob'' @ dquote # ''!'')
   \<and> int_of_str ref_lib (''hello '' @ dquote # ''bob'' @ dquote # ''!'') = None
   \<and> float_of_str ref_lib (''hello '' @ dquote # ''bob'' @ dquote # ''!'') = None
   \<and> replace_value ref_lib [''v'' \<mapsto> Leaf (PStr ''bob'')]
        (Leaf (PStr (''hello '' @ group0 ''v'' @ ''!'')))
     = Inr (Leaf (PStr (''hello '' @ dquote # ''bob'' @ dquote # ''!'')))
   \<and> str_in (dquote # ''bob'' @ [dquote]) (''hello '' @ dquote # ''bob'' @ dquote # ''!'')"
proof -
  have h1: "\<not> str_in ''${'' ''hello ''" by code_simp
  have h2: "''v'' \<noteq> []" by simp
  have h3: "CHR ''}'' \<notin> set ''v''" by simp
  have h4: "\<not> is_conditional ''v''" by code_simp
  have h5: "overrides_get ([''v'' \<mapsto> Leaf (PStr ''bob'')] :: dec overrides) ''v'' = Leaf (PStr ''bob'')"
    by (simp add: overrides_get_def)
  have h6: "re_sub (replace ref_lib [''v'' \<mapsto> Leaf (PStr ''bob'')]) ''!'' = Inr ''!''"
    by (simp add: match_placeholder_def)
  have h7: "\<not> startswith ''hello '' marker" by code_simp
  have h8: "\<not> quote_wrapped (''hello '' @ dquote # ''bob'' @ dquote # ''!'')" by code_simp
  have h9: "int_of_str ref_lib (''hello '' @ dquote # ''bob'' @ dquote # ''!'') = None" by code_simp
  have h10: "float_of_str ref_lib (''hello '' @ dquote # ''bob'' @ dquote # ''!'') = None" by code_simp
  note t = embedded_string_keeps_quotes [OF h1 h2 h3 h4 h5 h6 h7 h8 h9 h10]
  show ?thesis
    using h1 h2 h3 h4 h5 h6 h7 h8 h9 h10 t by blast
qed


section \<open>Documents that pass through unchanged\<close>

text \<open>
  Claim C5, as stated, fails: with an override string that is not empty, the substitution
  pass post-processes every string, and a string of digits comes out as a number. The
  document below has no defaults, no placeholder and no disabled flag.
\<close>

theorem numeric_string_changed:
  "validate_and_output_json ref_lib ''config.json'' (PDict [(''a'', Leaf (PStr ''123''))]) ''x=1''
     = Inr (PDict [(''a'', Leaf (PInt 123))])
   \<and> PDict [(''a'', Leaf (PInt 123))] \<noteq> (PDict [(''a'', Leaf (PStr ''123''))] :: dec json)"
  by code_simp

text \<open>
  Claim C5, amended. For every document (an object) with no top-level \<^verbatim>\<open>defaults\<close> key
  that holds no disabled object (no object whose \<^verbatim>\<open>disabled\<close> member equals \<^verbatim>\<open>True\<close> in
  Python), no \<^verbatim>\<open>None\<close> and no empty object or array, the substitution followed by the
  pruning returns the document unchanged, provided the override string is empty, or it
  parses and every string leaf holds no placeholder, does not start with the marker, is
  not wrapped in double quotes, is neither of the texts \<^verbatim>\<open>true\<close> and \<^verbatim>\<open>false\<close>, and is
  parsed neither by \<^verbatim>\<open>int\<close> nor by \<^verbatim>\<open>float\<close>.
\<close>

theorem plain_document_unchanged:
  assumes "map_of kvs ''defaults'' = None" and "no_removal L (PDict kvs)"
    and "runtime_overrides = []
      \<or> ((\<exists>ov. parse_overrides L runtime_overrides = Inr ov) \<and> all_strings (fixed_string L) (PDict kvs))"
  shows "validate_and_output_json L file_path (PDict kvs) runtime_overrides = Inr (PDict kvs)"
proof -
  have gd: "get_defaults kvs = PList []"
    using assms(1) by (simp add: get_defaults_def)
  then have wd: "without_defaults L kvs = kvs"
    by (simp add: without_defaults_def)
  have "apply_runtime_overrides L (PDict kvs) runtime_overrides = Inr (PDict kvs)"
  proof (cases "runtime_overrides = []")
    case True
    with gd show ?thesis by simp
  next
    case False
    with assms(3) have fixed: "all_strings (fixed_string L) (PDict kvs)" by simp
    from assms(3) False obtain ov where ov: "parse_overrides L runtime_overrides = Inr ov"
      by auto
    have "merge_defaults (PList []) ov = Inr ov"
      by simp
    with False gd wd ov fixed show ?thesis
      using fixed_strings_kept [OF fixed, of ov] by simp
  qed
  then show ?thesis
    using no_removal_kept [OF assms(2)] by (simp add: validate_and_output_json_def)
qed

theorem plain_document_unchanged_witness:
  "map_of [(''name'', Leaf (PStr ''svc'')), (''tags'', PList [Leaf (PStr ''a''), Leaf (PInt 3)])]
       ''defaults'' = (None :: dec json option)
   \<and> no_removal ref_lib
        (PDict [(''name'', Leaf (PStr ''svc'')), (''tags'', PList [Leaf (PStr ''a''), Leaf (PInt 3)])])
   \<and> parse_overrides ref_lib ''x=1'' = Inr [''x'' \<mapsto> Leaf (PInt 1)]
   \<and> all_strings (fixed_string ref_lib)
        (PDict [(''name'', Leaf (PStr ''svc'')), (''tags'', PList [Leaf (PStr ''a''), Leaf (PInt 3)])])
   \<and> validate_and_output_json ref_lib ''config.json''
        (PDict [(''name'', Leaf (PStr ''svc'')), (''tags'', PList [Leaf (PStr ''a''), Leaf (PInt 3)])])
        ''x=1''
     = Inr (PDict [(''name'', Leaf (PStr ''svc'')), (''tags'', PList [Leaf (PStr ''a''), Leaf (PInt 3)])])"
proof -
  have h1: "map_of [(''name'', Leaf (PStr ''svc'')), (''tags'', PList [Leaf (PStr ''a''), Leaf (PInt 3)])]
       ''defaults'' = (None :: dec json option)"
    by simp
  have h2: "no_removal ref_lib
        (PDict [(''name'', Leaf (PStr ''svc'')), (''tags'', PList [Leaf (PStr ''a''), Leaf (PInt 3)])])"
    by (simp add: is_disabled_def dict_get_def)
  have h3: "parse_overrides ref_lib ''x=1'' = Inr [''x'' \<mapsto> Leaf (PInt 1)]"
    by (simp add: parse_overrides_def coerce_override_def string_defs ref_defs)
  have h4: "all_strings (fixed_string ref_lib)
        (PDict [(''name'', Leaf (PStr ''svc'')), (''tags'', PList [Leaf (PStr ''a''), Leaf (PInt 3)])])"
    by code_simp
  have h5: "''x=1'' = []
      \<or> ((\<exists>ov. parse_overrides ref_lib ''x=1'' = Inr ov)
          \<and> all_strings (fixed_string ref_lib)
        (PDict [(''name'', Leaf (PStr ''svc'')), (''tags'', PList [Leaf (PStr ''a''), Leaf (PInt 3)])]))"
    using h3 h4 by blast
  show ?thesis
    using h1 h2 h3 h4 plain_document_unchanged [OF h1 h2 h5] by blast
qed


end
